theory Spec2Isabelle
  imports Complex_Main "HOL-Library.Multiset"
begin

section \<open>JavaScript numbers\<close>

text \<open>
  A JavaScript number is an IEEE 754 double: a finite value, one of the two infinities,
  or NaN. A finite double is held as the real number it denotes, and an operation on
  finite doubles rounds its exact result to a double (\<open>round64\<close> below), which can be
  an infinity. The infinities and NaN follow IEEE 754 as JavaScript does. The sign of
  zero is outside this model; a zero divisor counts as positive zero.
\<close>

datatype jsnum = Fin real | PInf | NInf | NaN

fun jneg :: "jsnum \<Rightarrow> jsnum" where
  "jneg (Fin x) = Fin (- x)"
| "jneg PInf = NInf"
| "jneg NInf = PInf"
| "jneg NaN = NaN"

subsection \<open>Rounding to a double\<close>

text \<open>Rounding to the nearest integer, a tie going to the even one.\<close>

definition round_half_even :: "real \<Rightarrow> int" where
  "round_half_even y =
     (let f = \<lfloor>y\<rfloor>; d = y - of_int f
      in if d < 1 / 2 then f else if 1 / 2 < d then f + 1 else if even f then f else f + 1)"

text \<open>
  The doubles of a magnitude from \<open>2 ^ e\<close> up to \<open>2 ^ (e + 1)\<close> are the multiples of
  \<open>2 ^ (e - 52)\<close>, for \<open>e\<close> from -1022 to 1023; the doubles below \<open>2 ^ (- 1022)\<close>
  (the subnormal ones) are the multiples of \<open>2 ^ (- 1074)\<close>. \<open>binade x\<close> is that
  \<open>e\<close> for a real number \<open>x\<close> other than 0.
\<close>

definition binade :: "real \<Rightarrow> int" where
  "binade x = max \<lfloor>log 2 \<bar>x\<bar>\<rfloor> (- 1022)"

text \<open>
  The double nearest to a real number, a tie going to the double with the even
  significand (the rounding of every operation of JavaScript). A result of magnitude
  \<open>2 ^ 1024\<close> or more is an infinity.
\<close>

definition round64 :: "real \<Rightarrow> jsnum" where
  "round64 x =
     (if x = 0 then Fin 0
      else
        (let q = 2 powr of_int (binade x - 52);
             r = of_int (round_half_even (x / q)) * q
         in if 2 ^ 1024 \<le> \<bar>r\<bar> then (if 0 < x then PInf else NInf) else Fin r))"

text \<open>
  For the proofs: the distance between the doubles around a real number, and the rounded
  value before the check for overflow.
\<close>

definition quantum :: "real \<Rightarrow> real" where
  "quantum x = 2 powr of_int (binade x - 52)"

definition round_unbounded :: "real \<Rightarrow> real" where
  "round_unbounded x = of_int (round_half_even (x / quantum x)) * quantum x"

subsection \<open>Arithmetic\<close>

fun jadd :: "jsnum \<Rightarrow> jsnum \<Rightarrow> jsnum" where
  "jadd NaN _ = NaN"
| "jadd _ NaN = NaN"
| "jadd (Fin a) (Fin b) = round64 (a + b)"
| "jadd PInf NInf = NaN"
| "jadd NInf PInf = NaN"
| "jadd PInf _ = PInf"
| "jadd _ PInf = PInf"
| "jadd NInf _ = NInf"
| "jadd _ NInf = NInf"

definition jsub :: "jsnum \<Rightarrow> jsnum \<Rightarrow> jsnum" where
  "jsub a b = jadd a (jneg b)"

fun jmul :: "jsnum \<Rightarrow> jsnum \<Rightarrow> jsnum" where
  "jmul NaN _ = NaN"
| "jmul _ NaN = NaN"
| "jmul (Fin a) (Fin b) = round64 (a * b)"
| "jmul (Fin a) PInf = (if a = 0 then NaN else if 0 < a then PInf else NInf)"
| "jmul (Fin a) NInf = (if a = 0 then NaN else if 0 < a then NInf else PInf)"
| "jmul PInf (Fin b) = (if b = 0 then NaN else if 0 < b then PInf else NInf)"
| "jmul NInf (Fin b) = (if b = 0 then NaN else if 0 < b then NInf else PInf)"
| "jmul PInf PInf = PInf"
| "jmul PInf NInf = NInf"
| "jmul NInf PInf = NInf"
| "jmul NInf NInf = PInf"

fun jdiv :: "jsnum \<Rightarrow> jsnum \<Rightarrow> jsnum" where
  "jdiv NaN _ = NaN"
| "jdiv _ NaN = NaN"
| "jdiv (Fin a) (Fin b) =
     (if b \<noteq> 0 then round64 (a / b)
      else if a = 0 then NaN else if 0 < a then PInf else NInf)"
| "jdiv (Fin a) PInf = Fin 0"
| "jdiv (Fin a) NInf = Fin 0"
| "jdiv PInf (Fin b) = (if 0 \<le> b then PInf else NInf)"
| "jdiv NInf (Fin b) = (if 0 \<le> b then NInf else PInf)"
| "jdiv PInf PInf = NaN"
| "jdiv PInf NInf = NaN"
| "jdiv NInf PInf = NaN"
| "jdiv NInf NInf = NaN"

section \<open>Values of a request body and of a table cell\<close>

text \<open>
  The JSON values a request field can carry and the values the database driver hands
  to the handler for a cell (arrays and objects, which no handler inspects, are left
  out). \<open>Undefined\<close> is a field that is absent.
\<close>

datatype jsval = Undefined | Null | Bool bool | Number jsnum | Str string

text \<open>The test \<^verbatim>\<open>!v\<close>.\<close>

fun falsy :: "jsval \<Rightarrow> bool" where
  "falsy Undefined = True"
| "falsy Null = True"
| "falsy (Bool b) = (\<not> b)"
| "falsy (Number n) = (n = Fin 0 \<or> n = NaN)"
| "falsy (Str s) = (s = [])"

subsection \<open>parseFloat\<close>

text \<open>
  \<^verbatim>\<open>parseFloat\<close> converts its argument to a string, skips leading white space and
  reads the longest prefix that is a decimal literal: an optional sign, then
  \<^verbatim>\<open>Infinity\<close> or digits with an optional fraction and an optional exponent. With no
  such prefix the result is NaN. Strings are byte strings here, so the white space is the
  ASCII part of JavaScript's. The result is the value of the literal rounded to a
  double.
\<close>

definition isWhiteSpace :: "char \<Rightarrow> bool" where
  "isWhiteSpace c = (of_char c \<in> {9, 10, 11, 12, 13, 32 :: nat})"

definition isDigit :: "char \<Rightarrow> bool" where
  "isDigit c = (48 \<le> (of_char c :: nat) \<and> (of_char c :: nat) \<le> 57)"

definition digitsValue :: "string \<Rightarrow> nat" where
  "digitsValue ds = foldl (\<lambda>n c. 10 * n + (of_char c - 48)) 0 ds"

text \<open>The exponent part at the head of a string: 0 when there is none.\<close>

definition exponentPart :: "string \<Rightarrow> int" where
  "exponentPart r =
     (case r of
        [] \<Rightarrow> 0
      | c # r1 \<Rightarrow>
          if c = CHR ''e'' \<or> c = CHR ''E'' then
            (let neg = (r1 \<noteq> [] \<and> hd r1 = CHR ''-'');
                 r2 = (if r1 \<noteq> [] \<and> (hd r1 = CHR ''-'' \<or> hd r1 = CHR ''+'') then tl r1 else r1);
                 ds = takeWhile isDigit r2
             in if ds = [] then 0
                else if neg then - int (digitsValue ds) else int (digitsValue ds))
          else 0)"

definition scale10 :: "real \<Rightarrow> int \<Rightarrow> real" where
  "scale10 x e = (if 0 \<le> e then x * 10 ^ nat e else x / 10 ^ nat (- e))"

definition parseUnsigned :: "string \<Rightarrow> jsnum" where
  "parseUnsigned t =
     (if take 8 t = ''Infinity'' then PInf
      else
        (let ip = takeWhile isDigit t;
             r1 = dropWhile isDigit t;
             dot = (r1 \<noteq> [] \<and> hd r1 = CHR ''.'');
             fp = (if dot then takeWhile isDigit (tl r1) else []);
             r2 = (if dot then dropWhile isDigit (tl r1) else r1)
         in if ip = [] \<and> fp = [] then NaN
            else round64 (scale10 (real (digitsValue (ip @ fp)))
                            (exponentPart r2 - int (length fp)))))"

definition parseFloatStr :: "string \<Rightarrow> jsnum" where
  "parseFloatStr s =
     (let t = dropWhile isWhiteSpace s;
          neg = (t \<noteq> [] \<and> hd t = CHR ''-'');
          u = (if t \<noteq> [] \<and> (hd t = CHR ''-'' \<or> hd t = CHR ''+'') then tl t else t)
      in if neg then jneg (parseUnsigned u) else parseUnsigned u)"

text \<open>
  A number converts to a string that reads back as the same number; \<^verbatim>\<open>undefined\<close>,
  \<^verbatim>\<open>null\<close> and the booleans convert to words that are no literal.
\<close>

fun parseFloat :: "jsval \<Rightarrow> jsnum" where
  "parseFloat (Str s) = parseFloatStr s"
| "parseFloat (Number n) = n"
| "parseFloat Undefined = NaN"
| "parseFloat Null = NaN"
| "parseFloat (Bool b) = NaN"

section \<open>The platform\<close>

text \<open>
  Two things the server relies on are fixed neither by its source nor by the language;
  they are arguments of the model.

  \<^verbatim>\<open>Math.pow\<close>: the language fixes the result for the exponents 0, the infinities
  and NaN, and leaves every other result to the implementation, as an approximation of
  the exact power. \<open>pow10 env x\<close> is the implementation's result of
  \<^verbatim>\<open>Math.pow(10, x)\<close> for a finite \<open>x\<close> other than 0.

  The comparison \<^verbatim>\<open>id = $1\<close> is made by the engine: the driver sends the parameter
  as text (the number 1 and the string \<^verbatim>\<open>"1"\<close> as the same text) and the engine reads
  the text as a value of the column's type. The type of the id column is not in the
  repository: \<open>id_selects env p c\<close> says that the parameter \<open>p\<close> selects a row whose
  id cell is \<open>c\<close>. A parameter the engine cannot read makes the statement reject, which
  is one of the rejections of the calls that can fail (below).
\<close>

record platform =
  pow10 :: "real \<Rightarrow> jsnum"
  id_selects :: "jsval \<Rightarrow> jsval \<Rightarrow> bool"

text \<open>\<^verbatim>\<open>Math.pow(10, x)\<close>, the only use of \<^verbatim>\<open>Math.pow\<close> in the server.\<close>

fun Math_pow10 :: "platform \<Rightarrow> jsnum \<Rightarrow> jsnum" where
  "Math_pow10 env (Fin x) = (if x = 0 then Fin 1 else pow10 env x)"
| "Math_pow10 env PInf = PInf"
| "Math_pow10 env NInf = Fin 0"
| "Math_pow10 env NaN = NaN"

text \<open>
  The power of a platform is accurate when each result is a finite number, not negative,
  within a relative error of \<open>2 ^ (- 50)\<close> (four units in the last place of a double)
  and an absolute error of \<open>2 ^ (- 64)\<close> of the exact power; or is plus infinity, for
  an exact power of \<open>2 ^ 1023\<close> or more.
\<close>

definition accurate_pow :: "platform \<Rightarrow> bool" where
  "accurate_pow env \<longleftrightarrow>
     (\<forall>x. (pow10 env x = PInf \<and> 2 ^ 1023 \<le> 10 powr x)
        \<or> (\<exists>p. pow10 env x = Fin p \<and> 0 \<le> p
              \<and> \<bar>p - 10 powr x\<bar> \<le> 10 powr x / 2 ^ 50 + 1 / 2 ^ 64))"

text \<open>One such power: the exact power rounded to a double.\<close>

definition rounded_pow10 :: "real \<Rightarrow> jsnum" where
  "rounded_pow10 x = round64 (10 powr x)"

section \<open>Elo logic\<close>

text \<open>\<^verbatim>\<open>const K_FACTOR = 32;\<close>\<close>

definition K_FACTOR :: jsnum where
  "K_FACTOR = Fin 32"

text \<open>
  \<^verbatim>\<open>function calculateExpectedScore(ratingA, ratingB) {
    return 1 / (1 + Math.pow(10, (ratingB - ratingA) / 400)); }\<close>
\<close>

definition calculateExpectedScore :: "platform \<Rightarrow> jsnum \<Rightarrow> jsnum \<Rightarrow> jsnum" where
  "calculateExpectedScore env ratingA ratingB =
     jdiv (Fin 1) (jadd (Fin 1) (Math_pow10 env (jdiv (jsub ratingB ratingA) (Fin 400))))"

text \<open>
  The rating computation of the vote handler (the lines from
  \<^verbatim>\<open>const expectedWinner\<close> to \<^verbatim>\<open>const newLoserRating\<close>). The source reads the
  constant \<^verbatim>\<open>K_FACTOR\<close>; here the factor is an argument, and the handler passes
  \<^const>\<open>K_FACTOR\<close>.
\<close>

definition newRatings :: "platform \<Rightarrow> jsnum \<Rightarrow> jsnum \<Rightarrow> jsnum \<Rightarrow> jsnum \<times> jsnum" where
  "newRatings env k winnerRating loserRating =
     (let expectedWinner = calculateExpectedScore env winnerRating loserRating;
          expectedLoser = calculateExpectedScore env loserRating winnerRating;
          newWinnerRating = jadd winnerRating (jmul k (jsub (Fin 1) expectedWinner));
          newLoserRating = jadd loserRating (jmul k (jsub (Fin 0) expectedLoser))
      in (newWinnerRating, newLoserRating))"

text \<open>For the proofs: the score computed from a given power.\<close>

definition score_of :: "jsnum \<Rightarrow> jsnum" where
  "score_of P = jdiv (Fin 1) (jadd (Fin 1) P)"

section \<open>The images table\<close>

text \<open>
  The schema is not part of the repository. The columns are those the statements of the
  server name. The driver returns a NUMERIC cell as its text (\<open>Str\<close>) and a NULL as
  \<open>Null\<close>; a rating the server has written is kept as the \<open>Number\<close> that was
  the parameter of the statement, which stands for its text: \<^const>\<open>parseFloat\<close> reads
  both back as the number. The count of matches is an integer without bound and never
  NULL.
\<close>

record image =
  image_id :: jsval
  name :: string
  image_url :: string
  rating :: jsval
  matches_played :: int

type_synonym images = "image list"

text \<open>\<^verbatim>\<open>SELECT id, name, rating FROM images WHERE id = $1\<close>\<close>

definition select_by_id :: "platform \<Rightarrow> jsval \<Rightarrow> images \<Rightarrow> image list" where
  "select_by_id env i db = filter (\<lambda>r. id_selects env i (image_id r)) db"

text \<open>\<^verbatim>\<open>UPDATE images SET rating = $1, matches_played = matches_played + 1 WHERE id = $2\<close>\<close>

definition update_rating :: "platform \<Rightarrow> jsnum \<Rightarrow> jsval \<Rightarrow> images \<Rightarrow> images" where
  "update_rating env newRating i db =
     map (\<lambda>r. if id_selects env i (image_id r)
               then r\<lparr>rating := Number newRating, matches_played := matches_played r + 1\<rparr>
               else r) db"

text \<open>
  One such comparison, that of an id column of type integer: the text of the parameter
  is read as an integer (white space around it, an optional sign, digits), and the row is
  selected when its id is that integer. The driver's text of a number that is an integer
  is its digits.
\<close>

definition integer_text :: "string \<Rightarrow> int option" where
  "integer_text s =
     (let t = dropWhile isWhiteSpace s;
          neg = (t \<noteq> [] \<and> hd t = CHR ''-'');
          u = (if t \<noteq> [] \<and> (hd t = CHR ''-'' \<or> hd t = CHR ''+'') then tl t else t);
          ds = takeWhile isDigit u;
          rest = dropWhile isWhiteSpace (dropWhile isDigit u)
      in if ds = [] \<or> rest \<noteq> [] then None
         else Some (if neg then - int (digitsValue ds) else int (digitsValue ds)))"

fun integer_key :: "jsval \<Rightarrow> int option" where
  "integer_key (Number (Fin x)) = (if x = of_int \<lfloor>x\<rfloor> then Some \<lfloor>x\<rfloor> else None)"
| "integer_key (Str s) = integer_text s"
| "integer_key v = None"

definition integer_ids :: "jsval \<Rightarrow> jsval \<Rightarrow> bool" where
  "integer_ids p c =
     (case integer_key p of
        None \<Rightarrow> False
      | Some k \<Rightarrow> - (2 ^ 31) \<le> k \<and> k < 2 ^ 31 \<and> integer_key c = Some k)"

text \<open>
  \<^verbatim>\<open>SELECT * FROM images ORDER BY RANDOM() LIMIT 2\<close>: the engine draws one random key
  for each row (here \<open>random n\<close> for the row at position \<open>n\<close>), sorts the rows by
  their keys and returns the first two.
\<close>

definition order_by_random :: "(nat \<Rightarrow> real) \<Rightarrow> images \<Rightarrow> image list" where
  "order_by_random random db = map snd (sort_key fst (zip (map random [0..<length db]) db))"

definition select_random_two :: "(nat \<Rightarrow> real) \<Rightarrow> images \<Rightarrow> image list" where
  "select_random_two random db = take 2 (order_by_random random db)"

text \<open>
  \<^verbatim>\<open>SELECT * FROM images ORDER BY rating DESC\<close>. In the engine's descending order
  NULL comes first, then NaN, then the numbers from the largest down.
\<close>

fun rating_class :: "jsval \<Rightarrow> nat" where
  "rating_class Null = 0"
| "rating_class v = (case parseFloat v of NaN \<Rightarrow> 1 | PInf \<Rightarrow> 2 | Fin x \<Rightarrow> 3 | NInf \<Rightarrow> 4)"

definition rating_value :: "jsval \<Rightarrow> real" where
  "rating_value v = (case parseFloat v of Fin x \<Rightarrow> x | _ \<Rightarrow> 0)"

definition ranks_before :: "image \<Rightarrow> image \<Rightarrow> bool" where
  "ranks_before a b =
     (rating_class (rating a) < rating_class (rating b)
      \<or> (rating_class (rating a) = rating_class (rating b)
          \<and> rating_value (rating b) \<le> rating_value (rating a)))"

fun insert_ranked :: "image \<Rightarrow> image list \<Rightarrow> image list" where
  "insert_ranked a [] = [a]"
| "insert_ranked a (b # bs) = (if ranks_before a b then a # b # bs else b # insert_ranked a bs)"

definition order_by_rating_desc :: "images \<Rightarrow> image list" where
  "order_by_rating_desc db = foldr insert_ranked db []"

text \<open>
  \<^verbatim>\<open>INSERT INTO images (name, image_url, rating, matches_played) VALUES ($1, $2, $3, $4)\<close>
  with the values \<^verbatim>\<open>[name, url, 1200, 0]\<close>; the engine assigns the id.
\<close>

definition insert_image :: "jsval \<Rightarrow> string \<Rightarrow> string \<Rightarrow> images \<Rightarrow> images" where
  "insert_image newId nm url db =
     db @ [\<lparr>image_id = newId, name = nm, image_url = url,
            rating = Number (Fin 1200), matches_played = 0\<rparr>]"

subsection \<open>Calls that can fail, and transactions\<close>

text \<open>
  Each awaited call of a handler can reject. Which ones do is an argument of the
  handlers: \<open>F c\<close> says that call \<open>c\<close> rejects. A call that rejects has no effect on
  the table. The handlers also return the calls they issued, in order.
\<close>

datatype call =
    SelectMatchup | SelectRankings
  | SelectWinner | SelectLoser | Connect | Begin | UpdateWinner | UpdateLoser | Commit | Rollback
  | ImagekitUpload | InsertImage

type_synonym faults = "call \<Rightarrow> bool"

text \<open>
  A client checked out of the pool: the table as committed, and inside a transaction the
  transaction's own copy. Statements outside a transaction commit at once. A transaction
  that is open when the client is released is never committed.
\<close>

record client =
  committed :: images
  pending :: "images option"

definition pg_connect :: "images \<Rightarrow> client" where
  "pg_connect db = \<lparr>committed = db, pending = None\<rparr>"

definition pg_begin :: "client \<Rightarrow> client" where
  "pg_begin c = c\<lparr>pending := Some (committed c)\<rparr>"

definition pg_exec :: "(images \<Rightarrow> images) \<Rightarrow> client \<Rightarrow> client" where
  "pg_exec stmt c =
     (case pending c of
        None \<Rightarrow> c\<lparr>committed := stmt (committed c)\<rparr>
      | Some t \<Rightarrow> c\<lparr>pending := Some (stmt t)\<rparr>)"

definition pg_commit :: "client \<Rightarrow> client" where
  "pg_commit c = (case pending c of None \<Rightarrow> c | Some t \<Rightarrow> \<lparr>committed = t, pending = None\<rparr>)"

definition pg_rollback :: "client \<Rightarrow> client" where
  "pg_rollback c = c\<lparr>pending := None\<rparr>"

definition pg_release :: "client \<Rightarrow> images" where
  "pg_release c = committed c"

section \<open>The API routes\<close>

datatype response =
    Err nat string \<comment> \<open>status code and the \<^verbatim>\<open>error\<close> field\<close>
  | VoteResult jsnum jsnum \<comment> \<open>200: \<^verbatim>\<open>success: true\<close>, \<^verbatim>\<open>winnerRating\<close>, \<^verbatim>\<open>loserRating\<close>\<close>
  | Rows "image list" \<comment> \<open>200: the rows of a query\<close>
  | Uploaded string \<comment> \<open>201: \<^verbatim>\<open>imageUrl\<close>\<close>

subsection \<open>GET /api/matchup and GET /api/rankings\<close>

definition matchup :: "faults \<Rightarrow> (nat \<Rightarrow> real) \<Rightarrow> images \<Rightarrow> response \<times> images \<times> call list" where
  "matchup F random db =
     (if F SelectMatchup then (Err 500 ''Server error'', db, [SelectMatchup])
      else
        (let rows = select_random_two random db
         in if length rows < 2 then (Err 404 ''Not enough images.'', db, [SelectMatchup])
            else (Rows rows, db, [SelectMatchup])))"

definition rankings :: "faults \<Rightarrow> images \<Rightarrow> response \<times> images \<times> call list" where
  "rankings F db =
     (if F SelectRankings then (Err 500 ''Server error'', db, [SelectRankings])
      else (Rows (order_by_rating_desc db), db, [SelectRankings]))"

subsection \<open>POST /api/vote\<close>

record vote_body =
  winnerId :: jsval
  loserId :: jsval

text \<open>
  The handler up to the new ratings: the check of the two ids, the two SELECTs, the
  check that both rows exist, \<^verbatim>\<open>parseFloat\<close> of the two ratings and the Elo
  computation. Either the response that ends the request, or the two new ratings.
\<close>

definition vote_compute :: "platform \<Rightarrow> faults \<Rightarrow> images \<Rightarrow> vote_body \<Rightarrow> (response + jsnum \<times> jsnum) \<times> call list" where
  "vote_compute env F db body =
     (if falsy (winnerId body) \<or> falsy (loserId body)
      then (Inl (Err 400 ''winnerId and loserId are required''), [])
      else if F SelectWinner then (Inl (Err 500 ''Vote failed''), [SelectWinner])
      else
        (let wr = select_by_id env (winnerId body) db
         in if F SelectLoser then (Inl (Err 500 ''Vote failed''), [SelectWinner, SelectLoser])
            else
              (let lr = select_by_id env (loserId body) db
               in if wr = [] \<or> lr = []
                  then (Inl (Err 404 ''Image not found''), [SelectWinner, SelectLoser])
                  else
                    (let winnerRating = parseFloat (rating (hd wr));
                         loserRating = parseFloat (rating (hd lr))
                     in (Inr (newRatings env K_FACTOR winnerRating loserRating),
                         [SelectWinner, SelectLoser])))))"

text \<open>
  The inner \<^verbatim>\<open>try\<close> block: BEGIN, the two UPDATEs, COMMIT. The result says whether the
  block threw.
\<close>

definition vote_transaction ::
  "platform \<Rightarrow> faults \<Rightarrow> client \<Rightarrow> vote_body \<Rightarrow> jsnum \<Rightarrow> jsnum \<Rightarrow> bool \<times> client \<times> call list" where
  "vote_transaction env F c body newWinnerRating newLoserRating =
     (if F Begin then (True, c, [Begin])
      else
        (let c1 = pg_begin c
         in if F UpdateWinner then (True, c1, [Begin, UpdateWinner])
            else
              (let c2 = pg_exec (update_rating env newWinnerRating (winnerId body)) c1
               in if F UpdateLoser then (True, c2, [Begin, UpdateWinner, UpdateLoser])
                  else
                    (let c3 = pg_exec (update_rating env newLoserRating (loserId body)) c2
                     in if F Commit then (True, c3, [Begin, UpdateWinner, UpdateLoser, Commit])
                        else (False, pg_commit c3, [Begin, UpdateWinner, UpdateLoser, Commit])))))"

text \<open>
  The rest of the handler: \<^verbatim>\<open>pool.connect()\<close>, the transaction, ROLLBACK when the
  block threw (the error is thrown again, and also when the ROLLBACK itself rejects the
  outer \<^verbatim>\<open>catch\<close> answers 500), the release of the client, and the response.
\<close>

definition vote_persist ::
  "platform \<Rightarrow> faults \<Rightarrow> images \<Rightarrow> vote_body \<Rightarrow> jsnum \<Rightarrow> jsnum \<Rightarrow> response \<times> images \<times> call list" where
  "vote_persist env F db body newWinnerRating newLoserRating =
     (if F Connect then (Err 500 ''Vote failed'', db, [Connect])
      else
        (case vote_transaction env F (pg_connect db) body newWinnerRating newLoserRating of
           (threw, c, calls) \<Rightarrow>
             if threw
             then (Err 500 ''Vote failed'',
                   pg_release (if F Rollback then c else pg_rollback c),
                   Connect # calls @ [Rollback])
             else (VoteResult newWinnerRating newLoserRating, pg_release c, Connect # calls)))"

definition vote :: "platform \<Rightarrow> faults \<Rightarrow> images \<Rightarrow> vote_body \<Rightarrow> response \<times> images \<times> call list" where
  "vote env F db body =
     (case vote_compute env F db body of
        (Inl resp, calls) \<Rightarrow> (resp, db, calls)
      | (Inr (newWinnerRating, newLoserRating), calls) \<Rightarrow>
          (case vote_persist env F db body newWinnerRating newLoserRating of
             (resp, db', calls') \<Rightarrow> (resp, db', calls @ calls')))"

subsection \<open>POST /api/upload\<close>

text \<open>
  The request: whether a file came with it, and the \<^verbatim>\<open>name\<close> field of the form
  (absent, or a string). The URL the image service answers with and the id the engine
  assigns to the new row are arguments.
\<close>

record upload_request =
  has_file :: bool
  meme_name :: "string option"

definition trim_is_empty :: "string \<Rightarrow> bool" where
  "trim_is_empty s = (dropWhile isWhiteSpace s = [])"

definition upload ::
  "faults \<Rightarrow> string \<Rightarrow> jsval \<Rightarrow> images \<Rightarrow> upload_request \<Rightarrow> response \<times> images \<times> call list" where
  "upload F url newId db req =
     (if \<not> has_file req then (Err 400 ''No image file uploaded.'', db, [])
      else
        (case meme_name req of
           None \<Rightarrow> (Err 400 ''Meme name is required.'', db, [])
         | Some nm \<Rightarrow>
             if nm = [] \<or> trim_is_empty nm then (Err 400 ''Meme name is required.'', db, [])
             else if F ImagekitUpload
             then (Err 500 ''Failed to upload the image.'', db, [ImagekitUpload])
             else if F InsertImage
             then (Err 500 ''Failed to upload the image.'', db, [ImagekitUpload, InsertImage])
             else (Uploaded url, insert_image newId nm url db, [ImagekitUpload, InsertImage])))"

subsection \<open>All requests\<close>

datatype request =
    GetMatchup "nat \<Rightarrow> real"
  | GetRankings
  | PostVote vote_body
  | PostUpload string jsval upload_request

fun handle :: "platform \<Rightarrow> faults \<Rightarrow> images \<Rightarrow> request \<Rightarrow> response \<times> images \<times> call list" where
  "handle env F db (GetMatchup random) = matchup F random db"
| "handle env F db GetRankings = rankings F db"
| "handle env F db (PostVote body) = vote env F db body"
| "handle env F db (PostUpload url newId req) = upload F url newId db req"

section \<open>Votes in flight at the same time\<close>

text \<open>
  The handler is asynchronous: at each \<^verbatim>\<open>await\<close> another request can run. A vote in
  flight has been received, or has read the two ratings and computed the new ones, or
  has been answered. One step of a vote takes it to the next stage against the table
  as it is at that moment; a schedule says which vote steps next. The transaction of a
  vote is one step.
\<close>

datatype inflight = Received vote_body | Computed vote_body jsnum jsnum | Replied response

fun advance :: "platform \<Rightarrow> faults \<Rightarrow> images \<Rightarrow> inflight \<Rightarrow> inflight \<times> images" where
  "advance env F db (Received body) =
     (case fst (vote_compute env F db body) of
        Inl resp \<Rightarrow> (Replied resp, db)
      | Inr (newWinnerRating, newLoserRating) \<Rightarrow> (Computed body newWinnerRating newLoserRating, db))"
| "advance env F db (Computed body newWinnerRating newLoserRating) =
     (case vote_persist env F db body newWinnerRating newLoserRating of
        (resp, db', calls) \<Rightarrow> (Replied resp, db'))"
| "advance env F db (Replied resp) = (Replied resp, db)"

fun run :: "platform \<Rightarrow> faults \<Rightarrow> nat list \<Rightarrow> images \<times> inflight list \<Rightarrow> images \<times> inflight list" where
  "run env F [] s = s"
| "run env F (i # schedule) (db, votes) =
     (if i < length votes
      then (case advance env F db (votes ! i) of
              (v, db') \<Rightarrow> run env F schedule (db', votes[i := v]))
      else run env F schedule (db, votes))"

section \<open>Tables over time\<close>

text \<open>
  The rows of a table stay where they are (no statement of the server deletes or
  reorders rows), so a row is followed by its position. \<open>never_less db db'\<close>: every
  row of \<open>db\<close> is still there in \<open>db'\<close> with the same id and with a count of matches
  that is not smaller.
\<close>

definition never_less :: "images \<Rightarrow> images \<Rightarrow> bool" where
  "never_less db db' \<longleftrightarrow>
     length db \<le> length db'
     \<and> (\<forall>n < length db. image_id (db' ! n) = image_id (db ! n)
            \<and> matches_played (db ! n) \<le> matches_played (db' ! n))"

section \<open>Example data\<close>

text \<open>The power is rounded correctly and the id column is of type integer.\<close>

definition example_platform :: platform where
  "example_platform = \<lparr>pow10 = rounded_pow10, id_selects = integer_ids\<rparr>"

text \<open>No call fails.\<close>

definition no_faults :: faults where
  "no_faults = (\<lambda>c. False)"

text \<open>Three images as the upload route creates them, read back with ids 1, 2 and 3.\<close>

definition example_images :: images where
  "example_images =
     [\<lparr>image_id = Number (Fin 1), name = ''doge'', image_url = ''https://ik.example/1'',
       rating = Str ''1200'', matches_played = 0\<rparr>,
      \<lparr>image_id = Number (Fin 2), name = ''pepe'', image_url = ''https://ik.example/2'',
       rating = Str ''1200'', matches_played = 0\<rparr>,
      \<lparr>image_id = Number (Fin 3), name = ''cat'', image_url = ''https://ik.example/3'',
       rating = Str ''1200'', matches_played = 0\<rparr>]"

text \<open>Image 1 wins over image 2; image 1 wins over image 3.\<close>

definition vote_1_over_2 :: vote_body where
  "vote_1_over_2 = \<lparr>winnerId = Number (Fin 1), loserId = Number (Fin 2)\<rparr>"

definition vote_1_over_3 :: vote_body where
  "vote_1_over_3 = \<lparr>winnerId = Number (Fin 1), loserId = Number (Fin 3)\<rparr>"

text \<open>Two images, the first with the NUMERIC value NaN as its rating.\<close>

definition nan_images :: images where
  "nan_images =
     [\<lparr>image_id = Number (Fin 1), name = ''doge'', image_url = ''https://ik.example/1'',
       rating = Str ''NaN'', matches_played = 4\<rparr>,
      \<lparr>image_id = Number (Fin 2), name = ''pepe'', image_url = ''https://ik.example/2'',
       rating = Str ''1200'', matches_played = 7\<rparr>]"

section \<open>Properties of the rounding\<close>

lemma rhe_near: "\<bar>of_int (round_half_even y) - y\<bar> \<le> 1 / 2"
proof -
  have "of_int \<lfloor>y\<rfloor> \<le> y" "y < of_int \<lfloor>y\<rfloor> + 1"
    by linarith+
  then show ?thesis
    by (auto simp add: round_half_even_def Let_def)
qed

lemma rhe_of_int: "round_half_even (of_int m) = m"
  by (simp add: round_half_even_def)

lemma rhe_nonneg: "0 \<le> y \<Longrightarrow> 0 \<le> round_half_even y"
  by (auto simp add: round_half_even_def Let_def)

lemma rhe_minus: "round_half_even (- y) = - round_half_even y"
proof (cases "y = of_int \<lfloor>y\<rfloor>")
  case True
  then obtain m where "y = of_int m" ..
  then show ?thesis
    using rhe_of_int [of m] rhe_of_int [of "- m"] by simp
next
  case False
  then have lt: "of_int \<lfloor>y\<rfloor> < y" "y < of_int \<lfloor>y\<rfloor> + 1"
    by linarith+
  then have fl: "\<lfloor>- y\<rfloor> = - \<lfloor>y\<rfloor> - 1"
    by linarith
  show ?thesis
    using lt by (auto simp add: round_half_even_def Let_def fl)
qed

lemma binade_minus: "binade (- x) = binade x"
  by (simp add: binade_def)

lemma floor_log2_bounds:
  assumes "x \<noteq> 0"
  shows "2 powr of_int \<lfloor>log 2 \<bar>x\<bar>\<rfloor> \<le> \<bar>x\<bar>" "\<bar>x\<bar> < 2 powr of_int (\<lfloor>log 2 \<bar>x\<bar>\<rfloor> + 1)"
proof -
  have pos: "0 < \<bar>x\<bar>" using assms by simp
  have "of_int \<lfloor>log 2 \<bar>x\<bar>\<rfloor> \<le> log 2 \<bar>x\<bar>" by simp
  then have "2 powr of_int \<lfloor>log 2 \<bar>x\<bar>\<rfloor> \<le> 2 powr log 2 \<bar>x\<bar>"
    by simp
  then show "2 powr of_int \<lfloor>log 2 \<bar>x\<bar>\<rfloor> \<le> \<bar>x\<bar>"
    using pos by simp
  have "log 2 \<bar>x\<bar> < of_int (\<lfloor>log 2 \<bar>x\<bar>\<rfloor> + 1)" by linarith
  then have "2 powr log 2 \<bar>x\<bar> < 2 powr of_int (\<lfloor>log 2 \<bar>x\<bar>\<rfloor> + 1)"
    by simp
  then show "\<bar>x\<bar> < 2 powr of_int (\<lfloor>log 2 \<bar>x\<bar>\<rfloor> + 1)"
    using pos by simp
qed

lemma floor_log2_eqI:
  assumes "2 powr of_int e \<le> \<bar>x\<bar>" "\<bar>x\<bar> < 2 powr of_int (e + 1)"
  shows "\<lfloor>log 2 \<bar>x\<bar>\<rfloor> = e"
proof -
  have pos: "0 < \<bar>x\<bar>"
    using assms(1) powr_gt_zero [of 2 "of_int e"] by linarith
  have "of_int e \<le> log 2 \<bar>x\<bar>"
    using assms(1) pos by (simp add: le_log_iff)
  moreover have "log 2 \<bar>x\<bar> < of_int (e + 1)"
    using assms(2) pos by (simp add: log_less_iff)
  ultimately show ?thesis
    by linarith
qed

text \<open>The two cases of \<^const>\<open>round64\<close>, and the error of the rounding.\<close>

lemma round64_alt:
  "round64 x =
     (if x = 0 then Fin 0
      else if 2 ^ 1024 \<le> \<bar>round_unbounded x\<bar> then (if 0 < x then PInf else NInf)
      else Fin (round_unbounded x))"
  by (simp add: round64_def round_unbounded_def quantum_def Let_def)

lemma quantum_pos: "0 < quantum x"
  by (simp add: quantum_def)

lemma round_unbounded_near: "\<bar>round_unbounded x - x\<bar> \<le> quantum x / 2"
proof -
  have q: "0 < quantum x" by (rule quantum_pos)
  have "round_unbounded x - x = (of_int (round_half_even (x / quantum x)) - x / quantum x) * quantum x"
    using q by (simp add: round_unbounded_def field_simps)
  then have "\<bar>round_unbounded x - x\<bar> = \<bar>of_int (round_half_even (x / quantum x)) - x / quantum x\<bar> * quantum x"
    using q by (simp add: abs_mult)
  also have "\<dots> \<le> 1 / 2 * quantum x"
    using rhe_near [of "x / quantum x"] q by (intro mult_right_mono) simp_all
  finally show ?thesis by simp
qed

lemma two_powr_nat: "(2::real) powr real n = 2 ^ n"
  by (simp add: powr_realpow)

lemma two_powr_minus_1074: "2 powr of_int (- 1022 - 52) = (1 / 2 ^ 1074 :: real)"
proof -
  have "(2::real) powr of_int (- 1022 - 52) = 2 powr (- real (1074::nat))"
    by simp
  also have "\<dots> = 1 / 2 powr real (1074::nat)"
    by (simp only: powr_minus_divide)
  also have "\<dots> = 1 / 2 ^ 1074"
    by (simp only: two_powr_nat)
  finally show ?thesis .
qed

lemma quantum_le:
  assumes "x \<noteq> 0"
  shows "quantum x / 2 \<le> \<bar>x\<bar> / 2 ^ 53 + 1 / 2 ^ 1075"
proof (cases "- 1022 \<le> \<lfloor>log 2 \<bar>x\<bar>\<rfloor>")
  case True
  then have b: "binade x = \<lfloor>log 2 \<bar>x\<bar>\<rfloor>"
    by (simp add: binade_def)
  have "quantum x = 2 powr of_int \<lfloor>log 2 \<bar>x\<bar>\<rfloor> / 2 ^ 52"
  proof -
    have "quantum x = 2 powr (of_int \<lfloor>log 2 \<bar>x\<bar>\<rfloor> - real (52::nat))"
      by (simp add: quantum_def b)
    also have "\<dots> = 2 powr of_int \<lfloor>log 2 \<bar>x\<bar>\<rfloor> / 2 powr real (52::nat)"
      by (simp only: powr_diff)
    also have "\<dots> = 2 powr of_int \<lfloor>log 2 \<bar>x\<bar>\<rfloor> / 2 ^ 52"
      by (simp only: two_powr_nat)
    finally show ?thesis .
  qed
  also have "\<dots> \<le> \<bar>x\<bar> / 2 ^ 52"
    using floor_log2_bounds(1) [OF assms] by (simp add: divide_right_mono)
  finally have h: "quantum x / 2 \<le> \<bar>x\<bar> / 2 ^ 53"
    by simp
  have z: "(0::real) \<le> 1 / 2 ^ 1075"
    by simp
  from z h show ?thesis
    by (rule add_increasing2)
next
  case False
  then have b: "binade x = - 1022"
    by (simp add: binade_def)
  have "quantum x = 1 / 2 ^ 1074"
    unfolding quantum_def b by (rule two_powr_minus_1074)
  then have "quantum x / 2 = 1 / 2 ^ 1075"
    by simp
  then show ?thesis
    by simp
qed

lemma round_unbounded_error:
  assumes "x \<noteq> 0"
  shows "\<bar>round_unbounded x - x\<bar> \<le> \<bar>x\<bar> / 2 ^ 53 + 1 / 2 ^ 1075"
  using round_unbounded_near [of x] quantum_le [OF assms] by linarith

lemma round64_Fin_error:
  assumes "round64 x = Fin r"
  shows "\<bar>r - x\<bar> \<le> \<bar>x\<bar> / 2 ^ 53 + 1 / 2 ^ 1075"
proof (cases "x = 0")
  case True
  with assms show ?thesis by (simp add: round64_alt)
next
  case False
  with assms have "r = round_unbounded x"
    by (simp add: round64_alt split: if_splits)
  with round_unbounded_error [OF False] show ?thesis by simp
qed

lemma round64_not_NaN: "round64 x \<noteq> NaN"
  by (simp add: round64_alt)

lemma round64_PInf:
  assumes "round64 x = PInf"
  shows "2 ^ 1023 \<le> x"
proof (rule ccontr)
  assume "\<not> 2 ^ 1023 \<le> x"
  then have lt: "x < 2 ^ 1023" by simp
  from assms have x: "x \<noteq> 0" "0 < x" and big: "2 ^ 1024 \<le> \<bar>round_unbounded x\<bar>"
    by (simp_all add: round64_alt split: if_splits)
  have e: "\<bar>round_unbounded x - x\<bar> \<le> \<bar>x\<bar> / 2 ^ 53 + 1 / 2 ^ 1075"
    by (rule round_unbounded_error [OF x(1)])
  have a: "(2::real) ^ 1024 = 2 * 2 ^ 1023" by simp
  have b: "(2::real) \<le> 2 ^ 1023"
    using power_increasing [of 1 1023 "2::real"] by simp
  have c: "x / 2 ^ 53 \<le> x / 2"
    using x(2) by (intro divide_left_mono) simp_all
  have d: "(1::real) / 2 ^ 1075 \<le> 1"
    by simp
  from e x(2) have "\<bar>round_unbounded x\<bar> \<le> x + x / 2 ^ 53 + 1 / 2 ^ 1075"
    by linarith
  with big a b c d lt show False
    by linarith
qed

lemma round64_minus: "round64 (- x) = jneg (round64 x)"
proof (cases "x = 0")
  case True
  then show ?thesis by (simp add: round64_alt)
next
  case False
  have q: "quantum (- x) = quantum x"
    by (simp add: quantum_def binade_minus)
  have "round_unbounded (- x) = - round_unbounded x"
    by (simp add: round_unbounded_def q rhe_minus)
  with False show ?thesis
    by (auto simp add: round64_alt)
qed

lemma round64_NInf:
  assumes "round64 x = NInf"
  shows "x \<le> - (2 ^ 1023)"
proof -
  from assms have "round64 (- x) = PInf"
    by (simp add: round64_minus)
  then have "2 ^ 1023 \<le> - x"
    by (rule round64_PInf)
  then show ?thesis by simp
qed

lemma round64_finite:
  assumes "\<bar>x\<bar> < 2 ^ 1023"
  shows "\<exists>r. round64 x = Fin r \<and> \<bar>r - x\<bar> \<le> \<bar>x\<bar> / 2 ^ 53 + 1 / 2 ^ 1075"
proof (cases "round64 x")
  case (Fin r)
  with round64_Fin_error [of x r] show ?thesis by simp
next
  case PInf
  from round64_PInf [OF this] assms show ?thesis by simp
next
  case NInf
  from round64_NInf [OF this] assms show ?thesis by simp
next
  case NaN
  with round64_not_NaN show ?thesis by simp
qed

lemma round64_step:
  assumes "\<bar>y\<bar> \<le> B" "B \<le> 2 ^ 64"
  shows "\<exists>r. round64 y = Fin r \<and> \<bar>r - y\<bar> \<le> B / 2 ^ 53 + 1 / 2 ^ 64"
proof -
  have "(2::real) ^ 64 < 2 ^ 1023"
    by (rule power_strict_increasing) simp_all
  with assms have "\<bar>y\<bar> < 2 ^ 1023" by linarith
  from round64_finite [OF this] obtain r where
    r: "round64 y = Fin r" "\<bar>r - y\<bar> \<le> \<bar>y\<bar> / 2 ^ 53 + 1 / 2 ^ 1075"
    by blast
  have "\<bar>y\<bar> / 2 ^ 53 \<le> B / 2 ^ 53"
    using assms(1) by (simp add: divide_right_mono)
  moreover have "(1::real) / 2 ^ 1075 \<le> 1 / 2 ^ 64"
    by (intro divide_left_mono power_increasing) simp_all
  ultimately show ?thesis
    using r by (intro exI [of _ r]) linarith
qed

lemma round64_nonneg:
  assumes "0 \<le> x" "round64 x = Fin r"
  shows "0 \<le> r"
proof (cases "x = 0")
  case True
  with assms show ?thesis by (simp add: round64_alt)
next
  case False
  with assms have r: "r = round_unbounded x"
    by (simp add: round64_alt split: if_splits)
  have "0 \<le> x / quantum x"
    using assms(1) quantum_pos [of x] by simp
  then have "0 \<le> round_half_even (x / quantum x)"
    by (rule rhe_nonneg)
  then show ?thesis
    using quantum_pos [of x] by (simp add: r round_unbounded_def)
qed

text \<open>Evaluation at a given argument, once its binade is known.\<close>

lemma binade_eqI:
  assumes "2 powr of_int e \<le> \<bar>x\<bar>" "\<bar>x\<bar> < 2 powr of_int (e + 1)" "- 1022 \<le> e"
  shows "binade x = e"
  using floor_log2_eqI [OF assms(1,2)] assms(3) by (simp add: binade_def)

lemma round64_evalI:
  assumes "2 powr of_int e \<le> \<bar>x\<bar>" "\<bar>x\<bar> < 2 powr of_int (e + 1)" "- 1022 \<le> e"
    and "round_half_even (x / 2 powr of_int (e - 52)) = m"
    and "\<bar>of_int m * 2 powr of_int (e - 52)\<bar> < (2 ^ 1024 :: real)"
  shows "round64 x = Fin (of_int m * 2 powr of_int (e - 52))"
proof -
  have "x \<noteq> 0"
    using assms(1) powr_gt_zero [of 2 "of_int e"] by auto
  moreover have "quantum x = 2 powr of_int (e - 52)"
    by (simp add: quantum_def binade_eqI [OF assms(1,2,3)])
  ultimately show ?thesis
    using assms(4,5) by (simp add: round64_alt round_unbounded_def)
qed

lemma round64_exactI:
  assumes "2 powr of_int e \<le> \<bar>x\<bar>" "\<bar>x\<bar> < 2 powr of_int (e + 1)" "- 1022 \<le> e" "e \<le> 1023"
    and "x / 2 powr of_int (e - 52) = of_int m"
  shows "round64 x = Fin x"
proof -
  have q: "0 < (2::real) powr of_int (e - 52)" by simp
  from assms(5) have x: "x = of_int m * 2 powr of_int (e - 52)"
    using q by (simp add: field_simps)
  have "(2::real) powr of_int (e + 1) \<le> 2 powr real (1024::nat)"
    using assms(4) by (intro powr_mono) simp_all
  also have "\<dots> = 2 ^ 1024"
    by (rule two_powr_nat)
  finally have "\<bar>x\<bar> < 2 ^ 1024"
    using assms(2) by linarith
  with x have "\<bar>of_int m * 2 powr of_int (e - 52)\<bar> < (2 ^ 1024 :: real)" by simp
  moreover have "round_half_even (x / 2 powr of_int (e - 52)) = m"
    by (simp only: assms(5) rhe_of_int)
  ultimately have "round64 x = Fin (of_int m * 2 powr of_int (e - 52))"
    using assms(1,2,3) by (intro round64_evalI)
  with x show ?thesis by simp
qed

lemma round64_of_int:
  assumes "\<bar>n\<bar> < 2 ^ 53"
  shows "round64 (of_int n) = Fin (of_int n)"
proof (cases "n = 0")
  case True
  then show ?thesis by (simp add: round64_alt)
next
  case False
  define x :: real where "x = of_int n"
  define e where "e = \<lfloor>log 2 \<bar>x\<bar>\<rfloor>"
  have x0: "x \<noteq> 0" using False by (simp add: x_def)
  have lo: "2 powr of_int e \<le> \<bar>x\<bar>" and hi: "\<bar>x\<bar> < 2 powr of_int (e + 1)"
    unfolding e_def using floor_log2_bounds [OF x0] by simp_all
  have ge1: "1 \<le> \<bar>x\<bar>"
    using False by (simp add: x_def)
  have lt53: "\<bar>x\<bar> < 2 ^ 53"
    using assms unfolding x_def by (metis of_int_abs of_int_less_numeral_power_cancel_iff)
  have "0 \<le> log 2 \<bar>x\<bar>"
    using ge1 by simp
  then have e0: "0 \<le> e" by (simp add: e_def)
  have "log 2 \<bar>x\<bar> < log 2 (2 ^ 53)"
    using lt53 ge1 by simp
  also have "log 2 (2 ^ 53) = (53::real)"
    using log_nat_power [of 2 2 53] by simp
  finally have e52: "e \<le> 52" by (simp add: e_def)
  define k where "k = nat (52 - e)"
  have ek: "of_int (e - 52) = - real k"
    using e52 by (simp add: k_def)
  have "x / 2 powr of_int (e - 52) = x * 2 powr real k"
    by (simp only: ek powr_minus) (simp add: field_simps)
  also have "\<dots> = of_int (n * 2 ^ k)"
    by (simp add: two_powr_nat x_def)
  finally have "x / 2 powr of_int (e - 52) = of_int (n * 2 ^ k)" .
  then have "round64 x = Fin x"
    using lo hi e0 e52 by (intro round64_exactI [where e = e and m = "n * 2 ^ k"]) simp_all
  then show ?thesis by (simp add: x_def)
qed

lemma round64_numeral [simp]:
  "numeral k < (2 ^ 53 :: int) \<Longrightarrow> round64 (numeral k) = Fin (numeral k)"
  using round64_of_int [of "numeral k"] by simp

lemma round64_neg_numeral [simp]:
  "numeral k < (2 ^ 53 :: int) \<Longrightarrow> round64 (- numeral k) = Fin (- numeral k)"
  using round64_of_int [of "- numeral k"] by simp

lemma round64_zero [simp]: "round64 0 = Fin 0"
  by (simp add: round64_alt)

lemma round64_one [simp]: "round64 1 = Fin 1"
  using round64_of_int [of 1] by simp

lemma round64_half [simp]: "round64 (1 / 2) = Fin (1 / 2)"
proof -
  have a: "(2::real) powr of_int (- 1) = 1 / 2"
    by (simp add: powr_minus_divide)
  have b: "(2::real) powr of_int (- 1 + 1) = 1" by simp
  have c: "(2::real) powr of_int (- 1 - 52) = 1 / 2 ^ 53"
  proof -
    have "(2::real) powr of_int (- 1 - 52) = 2 powr (- real (53::nat))" by simp
    also have "\<dots> = 1 / 2 powr real (53::nat)" by (simp only: powr_minus_divide)
    also have "\<dots> = 1 / 2 ^ 53" by (simp only: two_powr_nat)
    finally show ?thesis .
  qed
  show ?thesis
    by (rule round64_exactI [where e = "- 1" and m = "2 ^ 52"])
      (simp_all only: a b c, simp_all)
qed

text \<open>Evaluation of a number below 2, and overflow.\<close>

lemma two_powr_neg_nat: "(2::real) powr (- real k) = 1 / 2 ^ k"
  by (simp only: powr_minus_divide two_powr_nat)

lemma rhe_bound: "\<bar>of_int (round_half_even y)\<bar> \<le> \<bar>y\<bar> + 1 / 2"
  using rhe_near [of y] by linarith

lemma round64_eval_small:
  fixes k :: nat
  assumes "1 / 2 ^ k \<le> \<bar>x\<bar>" "\<bar>x\<bar> < 2 / 2 ^ k" "k \<le> 1022"
    and "round_half_even (x * 2 ^ (k + 52)) = m"
  shows "round64 x = Fin (of_int m / 2 ^ (k + 52))"
proof -
  have a: "(2::real) powr of_int (- int k) = 1 / 2 ^ k"
    using two_powr_neg_nat [of k] by simp
  have b: "(2::real) powr of_int (- int k + 1) = 2 / 2 ^ k"
  proof -
    have "(2::real) powr of_int (- int k + 1) = 2 powr (- real k + 1)" by simp
    also have "\<dots> = 2 powr (- real k) * 2 powr 1" by (simp only: powr_add)
    also have "\<dots> = 2 / 2 ^ k" by (simp add: two_powr_neg_nat)
    finally show ?thesis .
  qed
  have c: "(2::real) powr of_int (- int k - 52) = 1 / 2 ^ (k + 52)"
    using two_powr_neg_nat [of "k + 52"] by simp
  have r: "round_half_even (x / 2 powr of_int (- int k - 52)) = m"
    unfolding c using assms(4) by simp
  have "\<bar>x\<bar> * 2 ^ (k + 52) < 2 / 2 ^ k * 2 ^ (k + 52)"
    using assms(2) by (intro mult_strict_right_mono) simp_all
  also have "2 / 2 ^ k * 2 ^ (k + 52) = (2::real) ^ 53"
    by (simp add: power_add)
  finally have "\<bar>x * 2 ^ (k + 52)\<bar> < 2 ^ 53"
    by (simp add: abs_mult)
  with rhe_bound [of "x * 2 ^ (k + 52)"] assms(4)
  have m: "\<bar>of_int m :: real\<bar> \<le> 2 ^ 53 + 1 / 2"
    by linarith
  have "\<bar>of_int m * 2 powr of_int (- int k - 52)\<bar> = \<bar>of_int m :: real\<bar> / 2 ^ (k + 52)"
    unfolding c by (simp add: abs_mult)
  also have "\<dots> \<le> \<bar>of_int m :: real\<bar>"
    by (simp add: field_simps mult_le_cancel_left1)
  also have "\<dots> < (2 ^ 1024 :: real)"
  proof -
    have "(2 ^ 53 + 1 / 2 :: real) < 2 ^ 54" by simp
    also have "(2 ^ 54 :: real) \<le> 2 ^ 1024" by (intro power_increasing) simp_all
    finally show ?thesis using m by linarith
  qed
  finally have o: "\<bar>of_int m * 2 powr of_int (- int k - 52)\<bar> < (2 ^ 1024 :: real)" .
  have l: "2 powr of_int (- int k) \<le> \<bar>x\<bar>"
    unfolding a by (rule assms(1))
  have h: "\<bar>x\<bar> < 2 powr of_int (- int k + 1)"
    unfolding b by (rule assms(2))
  have g: "- 1022 \<le> - int k"
    using assms(3) by simp
  have "round64 x = Fin (of_int m * 2 powr of_int (- int k - 52))"
    by (rule round64_evalI [OF l h g r o])
  then show ?thesis
    unfolding c by simp
qed

lemma rhe_floor: "\<lfloor>y\<rfloor> \<le> round_half_even y"
  by (simp add: round_half_even_def Let_def)

lemma round64_overflow:
  assumes "2 ^ 1024 \<le> x"
  shows "round64 x = PInf"
proof -
  have p: "(0::real) < 2 ^ 1024" by simp
  from p assms have x0: "0 < x" by (rule less_le_trans)
  then have x1: "x \<noteq> 0" by simp
  define e where "e = \<lfloor>log 2 \<bar>x\<bar>\<rfloor>"
  have "log 2 (2 ^ 1024) \<le> log 2 \<bar>x\<bar>"
    using assms x0 by simp
  moreover have "log 2 (2 ^ 1024) = (1024::real)"
    using log_nat_power [of 2 2 1024] by simp
  ultimately have e: "1024 \<le> e"
    by (simp add: e_def le_floor_iff)
  then have b: "binade x = e"
    by (simp add: binade_def e_def)
  define q :: real where "q = 2 powr of_int (e - 52)"
  have q0: "0 < q" by (simp add: q_def)
  have eq: "(2::real) powr of_int e = 2 ^ 52 * q"
  proof -
    have "(2::real) powr of_int e = 2 powr (real (52::nat) + of_int (e - 52))" by simp
    also have "\<dots> = 2 powr real (52::nat) * 2 powr of_int (e - 52)" by (simp only: powr_add)
    also have "\<dots> = 2 ^ 52 * q" by (simp only: two_powr_nat q_def)
    finally show ?thesis .
  qed
  have "2 powr of_int e \<le> \<bar>x\<bar>"
    unfolding e_def using floor_log2_bounds(1) [OF x1] .
  then have "2 ^ 52 * q \<le> x"
    using x0 by (simp only: eq abs_of_pos)
  then have "of_int (2 ^ 52) \<le> x / q"
    using q0 by (simp add: field_simps)
  then have "2 ^ 52 \<le> \<lfloor>x / q\<rfloor>"
    by (simp only: le_floor_iff)
  with rhe_floor [of "x / q"] have m: "2 ^ 52 \<le> round_half_even (x / q)"
    by linarith
  then have "(2 ^ 52 :: real) \<le> of_int (round_half_even (x / q))"
    by (metis of_int_le_iff of_int_numeral of_int_power)
  then have c1: "2 ^ 52 * q \<le> of_int (round_half_even (x / q)) * q"
    using q0 by (intro mult_right_mono) simp_all
  have "(2::real) powr real (1024::nat) \<le> 2 powr of_int e"
    using e by (intro powr_mono) simp_all
  then have c2: "(2::real) ^ 1024 \<le> 2 ^ 52 * q"
    by (simp only: two_powr_nat eq)
  have ru: "round_unbounded x = of_int (round_half_even (x / q)) * q"
    by (simp only: round_unbounded_def quantum_def b q_def)
  from c2 c1 have "2 ^ 1024 \<le> of_int (round_half_even (x / q)) * q"
    by (rule order_trans)
  then have big: "2 ^ 1024 \<le> round_unbounded x"
    by (simp only: ru)
  from p big have "0 < round_unbounded x"
    by (rule less_le_trans)
  with big have "2 ^ 1024 \<le> \<bar>round_unbounded x\<bar>"
    by (simp only: abs_of_pos)
  with x0 x1 show ?thesis
    by (simp only: round64_alt if_True if_False)
qed

section \<open>Properties of the Elo logic\<close>

text \<open>A power that is rounded correctly is accurate.\<close>

lemma accurate_rounded:
  assumes "pow10 env = rounded_pow10"
  shows "accurate_pow env"
  unfolding accurate_pow_def
proof
  fix x :: real
  define T :: real where "T = 10 powr x"
  have T0: "0 < T" by (simp add: T_def)
  show "(pow10 env x = PInf \<and> 2 ^ 1023 \<le> 10 powr x)
        \<or> (\<exists>p. pow10 env x = Fin p \<and> 0 \<le> p
              \<and> \<bar>p - 10 powr x\<bar> \<le> 10 powr x / 2 ^ 50 + 1 / 2 ^ 64)"
  proof (cases "round64 T")
    case (Fin p)
    have "\<bar>p - T\<bar> \<le> \<bar>T\<bar> / 2 ^ 53 + 1 / 2 ^ 1075"
      using Fin by (rule round64_Fin_error)
    moreover have "T / 2 ^ 53 \<le> T / 2 ^ 50"
      using T0 by (intro divide_left_mono) simp_all
    moreover have "(1::real) / 2 ^ 1075 \<le> 1 / 2 ^ 64"
      by (intro divide_left_mono power_increasing) simp_all
    ultimately have "\<bar>p - T\<bar> \<le> T / 2 ^ 50 + 1 / 2 ^ 64"
      using T0 by simp
    moreover have "0 \<le> p"
      using T0 Fin round64_nonneg [of T p] by simp
    ultimately show ?thesis
      using Fin by (simp add: assms rounded_pow10_def T_def)
  next
    case PInf
    then have "2 ^ 1023 \<le> T" by (rule round64_PInf)
    with PInf show ?thesis
      by (simp add: assms rounded_pow10_def T_def)
  next
    case NInf
    from round64_NInf [OF this] T0 show ?thesis by simp
  next
    case NaN
    with round64_not_NaN show ?thesis by simp
  qed
qed

lemma accurate_example: "accurate_pow example_platform"
  by (rule accurate_rounded) (simp add: example_platform_def)

text \<open>The expected score computed from an accurate power.\<close>

lemma inverse_near:
  fixes s t :: real
  assumes "1 \<le> t" "\<bar>s - t\<bar> \<le> t / 2 ^ 53 + 1 / 2 ^ 1075"
  shows "0 < s" "1 / s \<le> 2" "\<bar>1 / s - 1 / t\<bar> \<le> 1 / 2 ^ 51"
proof -
  have tiny: "(1::real) / 2 ^ 1075 \<le> 1 / 2 ^ 53"
    by (intro divide_left_mono power_increasing) simp_all
  have "(1::real) / 2 ^ 53 \<le> t / 2 ^ 53"
    using assms(1) by (simp add: divide_right_mono)
  with tiny assms(2) have d: "\<bar>s - t\<bar> \<le> t / 2 ^ 52"
    by simp
  have "t / 2 ^ 52 \<le> t / 2"
    using assms(1) by (intro divide_left_mono) simp_all
  with d have half: "t / 2 \<le> s"
    by linarith
  with assms(1) show s: "0 < s" by linarith
  from half assms(1) have s2: "1 / 2 \<le> s" by linarith
  then show "1 / s \<le> 2"
    using s by (simp add: field_simps)
  have t0: "0 < t" using assms(1) by simp
  have "1 / s - 1 / t = (t - s) / (s * t)"
    using s t0 by (simp add: field_simps)
  then have "\<bar>1 / s - 1 / t\<bar> = \<bar>s - t\<bar> / (s * t)"
    using s t0 by (simp add: abs_minus_commute)
  also have "\<dots> \<le> (t / 2 ^ 52) / (s * t)"
    using d s t0 by (intro divide_right_mono) simp_all
  also have "\<dots> = (1 / 2 ^ 52) / s"
    using t0 by simp
  also have "\<dots> \<le> (1 / 2 ^ 52) / (1 / 2)"
    using s2 by (intro divide_left_mono) simp_all
  also have "\<dots> = 1 / 2 ^ 51"
    by simp
  finally show "\<bar>1 / s - 1 / t\<bar> \<le> 1 / 2 ^ 51" .
qed

lemma score_of_Fin:
  assumes "0 \<le> p"
  shows "\<exists>e. score_of (Fin p) = Fin e \<and> \<bar>e - 1 / (1 + p)\<bar> \<le> 1 / 2 ^ 50"
proof (cases "round64 (1 + p)")
  case (Fin s)
  have t: "1 \<le> 1 + p" using assms by simp
  have "\<bar>s - (1 + p)\<bar> \<le> \<bar>1 + p\<bar> / 2 ^ 53 + 1 / 2 ^ 1075"
    using Fin by (rule round64_Fin_error)
  with assms have near: "\<bar>s - (1 + p)\<bar> \<le> (1 + p) / 2 ^ 53 + 1 / 2 ^ 1075"
    by simp
  note inv = inverse_near [OF t near]
  have "\<bar>1 / s\<bar> \<le> 2" using inv(1,2) by simp
  from round64_step [OF this] obtain e where
    e: "round64 (1 / s) = Fin e" "\<bar>e - 1 / s\<bar> \<le> 2 / 2 ^ 53 + 1 / 2 ^ 64"
    by auto
  have "score_of (Fin p) = Fin e"
    using Fin e(1) inv(1) by (simp add: score_of_def)
  moreover have "\<bar>e - 1 / (1 + p)\<bar> \<le> 1 / 2 ^ 50"
  proof -
    have "\<bar>e - 1 / (1 + p)\<bar> \<le> \<bar>e - 1 / s\<bar> + \<bar>1 / s - 1 / (1 + p)\<bar>"
      by linarith
    moreover have "(2 / 2 ^ 53 + 1 / 2 ^ 64 + 1 / 2 ^ 51 :: real) \<le> 1 / 2 ^ 50"
      by simp
    ultimately show ?thesis
      using e(2) inv(3) by linarith
  qed
  ultimately show ?thesis by blast
next
  case PInf
  then have big: "2 ^ 1023 \<le> 1 + p" by (rule round64_PInf)
  have "score_of (Fin p) = Fin 0"
    using PInf by (simp add: score_of_def)
  moreover have "\<bar>0 - 1 / (1 + p)\<bar> \<le> 1 / 2 ^ 50"
  proof -
    have "(2::real) ^ 50 \<le> 2 ^ 1023"
      by (intro power_increasing) simp_all
    with big have "2 ^ 50 \<le> 1 + p" by linarith
    then have "1 / (1 + p) \<le> 1 / 2 ^ 50"
      by (intro divide_left_mono) simp_all
    moreover have "0 \<le> 1 / (1 + p)" using assms by simp
    ultimately show ?thesis by simp
  qed
  ultimately show ?thesis by blast
next
  case NInf
  from round64_NInf [OF this] assms show ?thesis by simp
next
  case NaN
  with round64_not_NaN show ?thesis by simp
qed

lemma inverse_pair:
  fixes p :: real
  assumes "0 < p"
  shows "1 / (1 + p) + 1 / (1 + inverse p) = 1"
proof -
  have "1 + inverse p = (p + 1) / p"
    using assms by (simp add: field_simps)
  then have "1 / (1 + inverse p) = p / (1 + p)"
    using assms by (simp add: add.commute)
  moreover have "1 / (1 + p) + p / (1 + p) = (1 + p) / (1 + p)"
    by (simp only: add_divide_distrib)
  moreover have "(1 + p) / (1 + p) = 1"
    using assms by simp
  ultimately show ?thesis by simp
qed

lemma logistic_pair:
  fixes x :: real
  shows "1 / (1 + 10 powr x) + 1 / (1 + 10 powr (- x)) = 1"
proof -
  have "0 < (10::real) powr x" by simp
  then show ?thesis
    using inverse_pair [of "10 powr x"] by (simp add: powr_minus)
qed

lemma logistic_range:
  fixes x :: real
  shows "0 < 1 / (1 + 10 powr x)" "1 / (1 + 10 powr x) \<le> 1"
proof -
  have p: "0 < (10::real) powr x" by simp
  then have q: "0 < 1 + 10 powr x" by linarith
  then show "0 < 1 / (1 + 10 powr x)" by simp
  from p q show "1 / (1 + 10 powr x) \<le> 1"
    by (simp add: field_simps)
qed

lemma quotient_near:
  fixes p T :: real
  assumes "0 \<le> p" "0 < T" "\<bar>p - T\<bar> \<le> T / 2 ^ 50 + 1 / 2 ^ 64"
  shows "\<bar>1 / (1 + p) - 1 / (1 + T)\<bar> \<le> 1 / 2 ^ 50 + 1 / 2 ^ 64"
proof -
  define D where "D = (1 + p) * (1 + T)"
  have D1: "1 \<le> D"
  proof -
    have "1 * 1 \<le> (1 + p) * (1 + T)"
      using assms(1,2) by (intro mult_mono) simp_all
    then show ?thesis by (simp add: D_def)
  qed
  have TD: "T \<le> D"
  proof -
    have "1 * T \<le> (1 + p) * (1 + T)"
      using assms(1,2) by (intro mult_mono) simp_all
    then show ?thesis by (simp add: D_def)
  qed
  have D0: "0 < D" using D1 by simp
  have a: "T / D \<le> 1" using TD D0 by simp
  have b: "1 / D \<le> 1" using D1 D0 by simp
  have "1 / (1 + p) - 1 / (1 + T) = (T - p) / D"
    using assms(1,2) by (simp add: D_def field_simps)
  then have "\<bar>1 / (1 + p) - 1 / (1 + T)\<bar> = \<bar>p - T\<bar> / D"
    using D0 by (simp add: abs_minus_commute)
  also have "\<dots> \<le> (T / 2 ^ 50 + 1 / 2 ^ 64) / D"
    using assms(3) D0 by (intro divide_right_mono) simp_all
  also have "\<dots> = (T / D) / 2 ^ 50 + (1 / D) / 2 ^ 64"
    by (simp add: add_divide_distrib)
  also have "\<dots> \<le> 1 / 2 ^ 50 + 1 / 2 ^ 64"
    using a b by (intro add_mono divide_right_mono) simp_all
  finally show ?thesis .
qed

lemma score_of_PInf: "score_of PInf = Fin 0"
  by (simp add: score_of_def)

lemma score_of_zero: "score_of (Fin 0) = Fin 1"
  by (simp add: score_of_def)

lemma score_accurate:
  assumes "accurate_pow env"
  shows "\<exists>e. score_of (Math_pow10 env (Fin x)) = Fin e
           \<and> \<bar>e - 1 / (1 + 10 powr x)\<bar> \<le> 1 / 2 ^ 48"
proof (cases "x = 0")
  case True
  from score_of_Fin [of 1] obtain e where
    e: "score_of (Fin 1) = Fin e" "\<bar>e - 1 / (1 + 1)\<bar> \<le> 1 / 2 ^ 50"
    by auto
  have "(1::real) / 2 ^ 50 \<le> 1 / 2 ^ 48" by simp
  with e(2) have "\<bar>e - 1 / (1 + 10 powr 0)\<bar> \<le> 1 / 2 ^ 48" by simp
  moreover have "score_of (Math_pow10 env (Fin 0)) = Fin e"
    using e(1) by simp
  ultimately show ?thesis
    using True by blast
next
  case False
  define T :: real where "T = 10 powr x"
  have T0: "0 < T" by (simp add: T_def)
  from assms have "(pow10 env x = PInf \<and> 2 ^ 1023 \<le> T)
        \<or> (\<exists>p. pow10 env x = Fin p \<and> 0 \<le> p \<and> \<bar>p - T\<bar> \<le> T / 2 ^ 50 + 1 / 2 ^ 64)"
    unfolding accurate_pow_def T_def by blast
  then show ?thesis
  proof
    assume inf: "pow10 env x = PInf \<and> 2 ^ 1023 \<le> T"
    then have "score_of (Math_pow10 env (Fin x)) = Fin 0"
      using False by (simp add: score_of_PInf)
    moreover have "\<bar>0 - 1 / (1 + T)\<bar> \<le> 1 / 2 ^ 48"
    proof -
      have "(2::real) ^ 48 \<le> 2 ^ 1023"
        by (intro power_increasing) simp_all
      with inf have "2 ^ 48 \<le> 1 + T" by linarith
      then have "1 / (1 + T) \<le> 1 / 2 ^ 48"
        by (intro divide_left_mono) simp_all
      moreover have "0 \<le> 1 / (1 + T)" using T0 by simp
      ultimately show ?thesis by simp
    qed
    ultimately show ?thesis
      unfolding T_def by blast
  next
    assume "\<exists>p. pow10 env x = Fin p \<and> 0 \<le> p \<and> \<bar>p - T\<bar> \<le> T / 2 ^ 50 + 1 / 2 ^ 64"
    then obtain p where p: "pow10 env x = Fin p" "0 \<le> p" "\<bar>p - T\<bar> \<le> T / 2 ^ 50 + 1 / 2 ^ 64"
      by blast
    from score_of_Fin [OF p(2)] obtain e where
      e: "score_of (Fin p) = Fin e" "\<bar>e - 1 / (1 + p)\<bar> \<le> 1 / 2 ^ 50"
      by auto
    have q: "\<bar>1 / (1 + p) - 1 / (1 + T)\<bar> \<le> 1 / 2 ^ 50 + 1 / 2 ^ 64"
      by (rule quotient_near [OF p(2) T0 p(3)])
    have "\<bar>e - 1 / (1 + T)\<bar> \<le> \<bar>e - 1 / (1 + p)\<bar> + \<bar>1 / (1 + p) - 1 / (1 + T)\<bar>"
      by linarith
    moreover have "(1 / 2 ^ 50 + (1 / 2 ^ 50 + 1 / 2 ^ 64) :: real) \<le> 1 / 2 ^ 48"
      by simp
    ultimately have "\<bar>e - 1 / (1 + T)\<bar> \<le> 1 / 2 ^ 48"
      using e(2) q by linarith
    moreover have "score_of (Math_pow10 env (Fin x)) = Fin e"
      using False p(1) e(1) by simp
    ultimately show ?thesis
      unfolding T_def by blast
  qed
qed

text \<open>The exponent of the power, and what exchanging the two ratings does to it.\<close>

lemma jdiv_jneg_400: "jdiv (jneg v) (Fin 400) = jneg (jdiv v (Fin 400))"
proof (cases v)
  case (Fin d)
  have "- d / 400 = - (d / 400)" by simp
  then show ?thesis
    using Fin round64_minus [of "d / 400"] by simp
qed simp_all

lemma exponent_swap:
  "jdiv (jsub (Fin a) (Fin b)) (Fin 400) = jneg (jdiv (jsub (Fin b) (Fin a)) (Fin 400))"
proof -
  have "a + - b = - (b + - a)" by simp
  then have "jsub (Fin a) (Fin b) = jneg (jsub (Fin b) (Fin a))"
    using round64_minus [of "b + - a"] by (simp add: jsub_def)
  then show ?thesis
    by (simp add: jdiv_jneg_400)
qed

lemma exponent_not_NaN: "jdiv (jsub (Fin b) (Fin a)) (Fin 400) \<noteq> NaN"
proof (cases "round64 (b + - a)")
  case (Fin d)
  then show ?thesis
    using round64_not_NaN [of "d / 400"] by (simp add: jsub_def)
next
  case NaN
  with round64_not_NaN show ?thesis by simp
qed (simp_all add: jsub_def)

lemma calculateExpectedScore_score_of:
  "calculateExpectedScore env (Fin a) (Fin b) =
     score_of (Math_pow10 env (jdiv (jsub (Fin b) (Fin a)) (Fin 400)))"
  by (simp add: calculateExpectedScore_def score_of_def)

lemma score_pair:
  assumes "accurate_pow env"
  shows "\<exists>e1 e2. calculateExpectedScore env (Fin a) (Fin b) = Fin e1
            \<and> calculateExpectedScore env (Fin b) (Fin a) = Fin e2
            \<and> \<bar>e1 + e2 - 1\<bar> \<le> 1 / 2 ^ 47
            \<and> - (1 / 2 ^ 48) \<le> e1 \<and> e1 \<le> 1 + 1 / 2 ^ 48
            \<and> - (1 / 2 ^ 48) \<le> e2 \<and> e2 \<le> 1 + 1 / 2 ^ 48"
proof (cases "jdiv (jsub (Fin b) (Fin a)) (Fin 400)")
  case (Fin x)
  then have other: "jdiv (jsub (Fin a) (Fin b)) (Fin 400) = Fin (- x)"
    by (simp add: exponent_swap [of a b])
  from score_accurate [OF assms, of x] obtain e1 where
    e1: "score_of (Math_pow10 env (Fin x)) = Fin e1" "\<bar>e1 - 1 / (1 + 10 powr x)\<bar> \<le> 1 / 2 ^ 48"
    by blast
  from score_accurate [OF assms, of "- x"] obtain e2 where
    e2: "score_of (Math_pow10 env (Fin (- x))) = Fin e2"
      "\<bar>e2 - 1 / (1 + 10 powr (- x))\<bar> \<le> 1 / 2 ^ 48"
    by blast
  have c1: "calculateExpectedScore env (Fin a) (Fin b) = Fin e1"
    by (simp only: calculateExpectedScore_score_of Fin e1(1))
  have c2: "calculateExpectedScore env (Fin b) (Fin a) = Fin e2"
    by (simp only: calculateExpectedScore_score_of other e2(1))
  have "(1 / 2 ^ 48 + 1 / 2 ^ 48 :: real) = 1 / 2 ^ 47" by simp
  then have s: "\<bar>e1 + e2 - 1\<bar> \<le> 1 / 2 ^ 47"
    using e1(2) e2(2) logistic_pair [of x] by linarith
  have r1: "- (1 / 2 ^ 48) \<le> e1 \<and> e1 \<le> 1 + 1 / 2 ^ 48"
    using e1(2) logistic_range [of x] by linarith
  have r2: "- (1 / 2 ^ 48) \<le> e2 \<and> e2 \<le> 1 + 1 / 2 ^ 48"
    using e2(2) logistic_range [of "- x"] by linarith
  from c1 c2 s r1 r2 show ?thesis by blast
next
  case PInf
  then have other: "jdiv (jsub (Fin a) (Fin b)) (Fin 400) = NInf"
    by (simp add: exponent_swap [of a b])
  have c1: "calculateExpectedScore env (Fin a) (Fin b) = Fin 0"
    by (simp only: calculateExpectedScore_score_of PInf Math_pow10.simps score_of_PInf)
  have c2: "calculateExpectedScore env (Fin b) (Fin a) = Fin 1"
    by (simp only: calculateExpectedScore_score_of other Math_pow10.simps score_of_zero)
  from c1 c2 show ?thesis
    by (intro exI [of _ 0] exI [of _ 1]) simp
next
  case NInf
  then have other: "jdiv (jsub (Fin a) (Fin b)) (Fin 400) = PInf"
    by (simp add: exponent_swap [of a b])
  have c1: "calculateExpectedScore env (Fin a) (Fin b) = Fin 1"
    by (simp only: calculateExpectedScore_score_of NInf Math_pow10.simps score_of_zero)
  have c2: "calculateExpectedScore env (Fin b) (Fin a) = Fin 0"
    by (simp only: calculateExpectedScore_score_of other Math_pow10.simps score_of_PInf)
  from c1 c2 show ?thesis
    by (intro exI [of _ 1] exI [of _ 0]) simp
next
  case NaN
  with exponent_not_NaN show ?thesis by blast
qed

text \<open>
  Claim C5. On a platform whose power is accurate, for all finite ratings a and b the
  expected score of a against b and the expected score of b against a are finite
  numbers, and their sum as the doubles give it is within \<open>1e-12\<close> of 1.
\<close>

theorem expectedScore_symmetry:
  "accurate_pow env \<longrightarrow>
     (\<exists>s. jadd (calculateExpectedScore env (Fin a) (Fin b))
                (calculateExpectedScore env (Fin b) (Fin a)) = Fin s
          \<and> \<bar>s - 1\<bar> \<le> 1 / 10 ^ 12)"
proof
  assume acc: "accurate_pow env"
  from score_pair [OF acc, of a b] obtain e1 e2 where
    c: "calculateExpectedScore env (Fin a) (Fin b) = Fin e1"
       "calculateExpectedScore env (Fin b) (Fin a) = Fin e2"
    and s: "\<bar>e1 + e2 - 1\<bar> \<le> 1 / 2 ^ 47"
    by blast
  have "(1::real) / 2 ^ 47 \<le> 1" by simp
  with s have "\<bar>e1 + e2\<bar> \<le> 2" by linarith
  from round64_step [OF this] obtain r where
    r: "round64 (e1 + e2) = Fin r" "\<bar>r - (e1 + e2)\<bar> \<le> 2 / 2 ^ 53 + 1 / 2 ^ 64"
    by auto
  have "(1 / 2 ^ 47 + (2 / 2 ^ 53 + 1 / 2 ^ 64) :: real) \<le> 1 / 10 ^ 12" by simp
  with s r(2) have "\<bar>r - 1\<bar> \<le> 1 / 10 ^ 12" by linarith
  with c r(1) show "\<exists>s. jadd (calculateExpectedScore env (Fin a) (Fin b))
                (calculateExpectedScore env (Fin b) (Fin a)) = Fin s
          \<and> \<bar>s - 1\<bar> \<le> 1 / 10 ^ 12"
    by simp
qed

text \<open>An instance: the ratings 2400 and 1200, with the power rounded correctly.\<close>

theorem expectedScore_symmetry_witness:
  "\<exists>s. jadd (calculateExpectedScore example_platform (Fin 2400) (Fin 1200))
             (calculateExpectedScore example_platform (Fin 1200) (Fin 2400)) = Fin s
        \<and> \<bar>s - 1\<bar> \<le> 1 / 10 ^ 12"
  using expectedScore_symmetry [of example_platform 2400 1200] accurate_example
  by blast

text \<open>
  The sum is not 1 in general: with the ratings 2400 and 1200 and the power rounded
  correctly the doubles give \<open>1 + 2 ^ (- 52)\<close>. A power too large for a double is
  infinite, and the expected score is then 0.
\<close>

lemma pow_m3: "(10::real) powr (- 3) = 1 / 1000"
proof -
  have "(10::real) powr (- 3) = 1 / 10 powr 3"
    by (simp only: powr_minus_divide)
  then show ?thesis by simp
qed

lemma expected_2400_1200:
  "calculateExpectedScore example_platform (Fin 2400) (Fin 1200) = Fin (8998201053687306 / 2 ^ 53)"
proof -
  have e: "jdiv (jsub (Fin 1200) (Fin 2400)) (Fin 400) = Fin (- 3)"
    by (simp add: jsub_def)
  have "round64 (1 / 1000) = Fin (of_int 4611686018427388 / 2 ^ (10 + 52))"
    by (rule round64_eval_small) (simp_all add: round_half_even_def)
  then have p: "Math_pow10 example_platform (Fin (- 3)) = Fin (4611686018427388 / 2 ^ 62)"
    by (simp add: example_platform_def rounded_pow10_def pow_m3)
  have "round64 (1 + 4611686018427388 / 2 ^ 62) = Fin (of_int 4508103226997866 / 2 ^ (0 + 52))"
    by (rule round64_eval_small) (simp_all add: round_half_even_def)
  then have a: "jadd (Fin 1) (Fin (4611686018427388 / 2 ^ 62)) = Fin (4508103226997866 / 2 ^ 52)"
    by simp
  have "round64 (1 / (4508103226997866 / 2 ^ 52)) = Fin (of_int 8998201053687306 / 2 ^ (1 + 52))"
    by (rule round64_eval_small) (simp_all add: round_half_even_def)
  then have d: "jdiv (Fin 1) (Fin (4508103226997866 / 2 ^ 52)) = Fin (8998201053687306 / 2 ^ 53)"
    by simp
  show ?thesis
    by (simp only: calculateExpectedScore_def e p a d)
qed

lemma expected_1200_2400:
  "calculateExpectedScore example_platform (Fin 1200) (Fin 2400) = Fin (4607078939487900 / 2 ^ 62)"
proof -
  have e: "jdiv (jsub (Fin 2400) (Fin 1200)) (Fin 400) = Fin 3"
    by (simp add: jsub_def)
  have p: "Math_pow10 example_platform (Fin 3) = Fin 1000"
    by (simp add: example_platform_def rounded_pow10_def)
  have a: "jadd (Fin 1) (Fin 1000) = Fin 1001"
    by simp
  have "round64 (1 / 1001) = Fin (of_int 4607078939487900 / 2 ^ (10 + 52))"
    by (rule round64_eval_small) (simp_all add: round_half_even_def)
  then have d: "jdiv (Fin 1) (Fin 1001) = Fin (4607078939487900 / 2 ^ 62)"
    by simp
  show ?thesis
    by (simp only: calculateExpectedScore_def e p a d)
qed

lemma symmetry_2400_1200:
  "jadd (calculateExpectedScore example_platform (Fin 2400) (Fin 1200))
        (calculateExpectedScore example_platform (Fin 1200) (Fin 2400)) = Fin (1 + 1 / 2 ^ 52)"
proof -
  have "round64 (8998201053687306 / 2 ^ 53 + 4607078939487900 / 2 ^ 62)
      = Fin (of_int 4503599627370497 / 2 ^ (0 + 52))"
    by (rule round64_eval_small) (simp_all add: round_half_even_def)
  then have "jadd (Fin (8998201053687306 / 2 ^ 53)) (Fin (4607078939487900 / 2 ^ 62))
      = Fin (1 + 1 / 2 ^ 52)"
    by simp
  then show ?thesis
    by (simp only: expected_2400_1200 expected_1200_2400)
qed

lemma expected_overflow: "calculateExpectedScore example_platform (Fin 0) (Fin 123600) = Fin 0"
  by (simp add: calculateExpectedScore_def jsub_def example_platform_def rounded_pow10_def
      round64_overflow)

text \<open>Equal ratings.\<close>

lemma round64_neg_half [simp]: "round64 (- (1 / 2)) = Fin (- (1 / 2))"
  using round64_minus [of "1 / 2"] by simp

lemma expected_equal: "calculateExpectedScore env (Fin x) (Fin x) = Fin (1 / 2)"
  by (simp add: calculateExpectedScore_def jsub_def)

lemma newRatings_equal:
  "newRatings env K_FACTOR (Fin x) (Fin x) = (round64 (x + 16), round64 (x - 16))"
  by (simp add: newRatings_def expected_equal K_FACTOR_def jsub_def)

text \<open>
  Claim C6. The factor is 32; with winner and loser both rated 1200 both expected
  scores are 0.5, the winner's new rating is exactly 1216 and the loser's exactly 1184,
  on every platform.
\<close>

theorem equal_ratings_1200:
  "K_FACTOR = Fin 32
   \<and> calculateExpectedScore env (Fin 1200) (Fin 1200) = Fin (1 / 2)
   \<and> newRatings env K_FACTOR (Fin 1200) (Fin 1200) = (Fin 1216, Fin 1184)"
  by (simp add: newRatings_equal expected_equal) (simp add: K_FACTOR_def)

text \<open>One side of the update: the adjustment, the new rating and the change read back.\<close>

lemma update_steps:
  assumes "\<bar>k\<bar> \<le> 1000" "\<bar>w\<bar> \<le> 10 ^ 6" "\<bar>d\<bar> \<le> 2"
  shows "\<exists>n c. jadd (Fin w) (jmul (Fin k) (round64 d)) = Fin n
           \<and> jsub (Fin n) (Fin w) = Fin c
           \<and> \<bar>n - (w + k * d)\<bar> \<le> 1003001 / 2 ^ 53 + 1 / 2 ^ 39
           \<and> \<bar>c - k * d\<bar> \<le> 1003001 / 2 ^ 53 + 1 / 2 ^ 38"
proof -
  from round64_step [OF assms(3)] obtain t where
    t: "round64 d = Fin t" "\<bar>t - d\<bar> \<le> 2 / 2 ^ 53 + 1 / 2 ^ 64"
    by auto
  have t51: "\<bar>t - d\<bar> \<le> 1 / 2 ^ 51"
    using t(2) by simp
  have one51: "(1::real) / 2 ^ 51 \<le> 1" by simp
  have t3: "\<bar>t\<bar> \<le> 3"
    using t51 assms(3) one51 by linarith
  have kt: "\<bar>k * t\<bar> \<le> 3000"
  proof -
    have "\<bar>k\<bar> * \<bar>t\<bar> \<le> 1000 * 3"
      using assms(1) t3 by (intro mult_mono) simp_all
    then show ?thesis by (simp add: abs_mult)
  qed
  from round64_step [OF kt] obtain g where
    g: "round64 (k * t) = Fin g" "\<bar>g - k * t\<bar> \<le> 3000 / 2 ^ 53 + 1 / 2 ^ 64"
    by auto
  have ktd: "\<bar>k * t - k * d\<bar> \<le> 1000 / 2 ^ 51"
  proof -
    have "\<bar>k\<bar> * \<bar>t - d\<bar> \<le> 1000 * (1 / 2 ^ 51)"
      using assms(1) t51 by (intro mult_mono) simp_all
    moreover have "k * t - k * d = k * (t - d)"
      by (simp add: algebra_simps)
    ultimately show ?thesis by (simp add: abs_mult)
  qed
  have gd: "\<bar>g - k * d\<bar> \<le> 1 / 2 ^ 40"
  proof -
    have "\<bar>g - k * d\<bar> \<le> \<bar>g - k * t\<bar> + \<bar>k * t - k * d\<bar>" by linarith
    moreover have "(3000 / 2 ^ 53 + 1 / 2 ^ 64 + 1000 / 2 ^ 51 :: real) \<le> 1 / 2 ^ 40" by simp
    ultimately show ?thesis using g(2) ktd by linarith
  qed
  have "(3000 / 2 ^ 53 + 1 / 2 ^ 64 :: real) \<le> 1" by simp
  with g(2) kt have g3: "\<bar>g\<bar> \<le> 3001"
    by linarith
  have wg: "\<bar>w + g\<bar> \<le> 1003001"
    using assms(2) g3 by (simp; linarith)
  from round64_step [OF wg] obtain n where
    n: "round64 (w + g) = Fin n" "\<bar>n - (w + g)\<bar> \<le> 1003001 / 2 ^ 53 + 1 / 2 ^ 64"
    by auto
  have nd: "\<bar>n - (w + k * d)\<bar> \<le> 1003001 / 2 ^ 53 + 1 / 2 ^ 39"
  proof -
    have "\<bar>n - (w + k * d)\<bar> \<le> \<bar>n - (w + g)\<bar> + \<bar>g - k * d\<bar>" by linarith
    moreover have "(1 / 2 ^ 64 + 1 / 2 ^ 40 :: real) \<le> 1 / 2 ^ 39" by simp
    ultimately show ?thesis using n(2) gd by linarith
  qed
  have "(1003001 / 2 ^ 53 + 1 / 2 ^ 64 :: real) \<le> 1" by simp
  with n(2) g3 have nw: "\<bar>n - w\<bar> \<le> 3002"
    by linarith
  from round64_step [OF nw] obtain c where
    c: "round64 (n - w) = Fin c" "\<bar>c - (n - w)\<bar> \<le> 3002 / 2 ^ 53 + 1 / 2 ^ 64"
    by auto
  have cd: "\<bar>c - k * d\<bar> \<le> 1003001 / 2 ^ 53 + 1 / 2 ^ 38"
  proof -
    have "\<bar>c - k * d\<bar> \<le> \<bar>c - (n - w)\<bar> + \<bar>n - (w + k * d)\<bar>" by linarith
    moreover have "(3002 / 2 ^ 53 + 1 / 2 ^ 64 + 1 / 2 ^ 39 :: real) \<le> 1 / 2 ^ 38" by simp
    ultimately show ?thesis using c(2) nd by linarith
  qed
  have "jadd (Fin w) (jmul (Fin k) (round64 d)) = Fin n"
    by (simp add: t(1) g(1) n(1))
  moreover have "jsub (Fin n) (Fin w) = Fin c"
    by (simp add: jsub_def c(1))
  ultimately show ?thesis
    using nd cd by blast
qed

lemma newRatings_steps:
  assumes "calculateExpectedScore env (Fin w) (Fin l) = Fin e1"
    and "calculateExpectedScore env (Fin l) (Fin w) = Fin e2"
  shows "newRatings env (Fin k) (Fin w) (Fin l) =
     (jadd (Fin w) (jmul (Fin k) (round64 (1 - e1))),
      jadd (Fin l) (jmul (Fin k) (round64 (- e2))))"
  by (simp add: newRatings_def assms jsub_def)

lemma newRatings_near:
  assumes "accurate_pow env" "\<bar>k\<bar> \<le> 1000" "\<bar>w\<bar> \<le> 10 ^ 6" "\<bar>l\<bar> \<le> 10 ^ 6"
  shows "\<exists>e1 e2 nw nl cw cl.
      calculateExpectedScore env (Fin w) (Fin l) = Fin e1
      \<and> calculateExpectedScore env (Fin l) (Fin w) = Fin e2
      \<and> \<bar>e1 + e2 - 1\<bar> \<le> 1 / 2 ^ 47
      \<and> - (1 / 2 ^ 48) \<le> e1 \<and> e1 \<le> 1 + 1 / 2 ^ 48
      \<and> newRatings env (Fin k) (Fin w) (Fin l) = (Fin nw, Fin nl)
      \<and> jsub (Fin nw) (Fin w) = Fin cw \<and> jsub (Fin nl) (Fin l) = Fin cl
      \<and> \<bar>nw - (w + k * (1 - e1))\<bar> \<le> 1003001 / 2 ^ 53 + 1 / 2 ^ 39
      \<and> \<bar>nl - (l + k * (- e2))\<bar> \<le> 1003001 / 2 ^ 53 + 1 / 2 ^ 39
      \<and> \<bar>cw - k * (1 - e1)\<bar> \<le> 1003001 / 2 ^ 53 + 1 / 2 ^ 38
      \<and> \<bar>cl - k * (- e2)\<bar> \<le> 1003001 / 2 ^ 53 + 1 / 2 ^ 38"
proof -
  from score_pair [OF assms(1), of w l] obtain e1 e2 where
    c: "calculateExpectedScore env (Fin w) (Fin l) = Fin e1"
       "calculateExpectedScore env (Fin l) (Fin w) = Fin e2"
    and s: "\<bar>e1 + e2 - 1\<bar> \<le> 1 / 2 ^ 47"
    and r1: "- (1 / 2 ^ 48) \<le> e1" "e1 \<le> 1 + 1 / 2 ^ 48"
    and r2: "- (1 / 2 ^ 48) \<le> e2" "e2 \<le> 1 + 1 / 2 ^ 48"
    by blast
  have small: "(1::real) / 2 ^ 48 \<le> 1" by simp
  have d1: "\<bar>1 - e1\<bar> \<le> 2" using r1 small by linarith
  have d2: "\<bar>- e2\<bar> \<le> 2" using r2 small by linarith
  from update_steps [OF assms(2,3) d1] obtain nw cw where
    w: "jadd (Fin w) (jmul (Fin k) (round64 (1 - e1))) = Fin nw"
       "jsub (Fin nw) (Fin w) = Fin cw"
       "\<bar>nw - (w + k * (1 - e1))\<bar> \<le> 1003001 / 2 ^ 53 + 1 / 2 ^ 39"
       "\<bar>cw - k * (1 - e1)\<bar> \<le> 1003001 / 2 ^ 53 + 1 / 2 ^ 38"
    by blast
  from update_steps [OF assms(2,4) d2] obtain nl cl where
    l: "jadd (Fin l) (jmul (Fin k) (round64 (- e2))) = Fin nl"
       "jsub (Fin nl) (Fin l) = Fin cl"
       "\<bar>nl - (l + k * (- e2))\<bar> \<le> 1003001 / 2 ^ 53 + 1 / 2 ^ 39"
       "\<bar>cl - k * (- e2)\<bar> \<le> 1003001 / 2 ^ 53 + 1 / 2 ^ 38"
    by blast
  have "newRatings env (Fin k) (Fin w) (Fin l) = (Fin nw, Fin nl)"
    by (simp only: newRatings_steps [OF c] w(1) l(1))
  with c s r1 w l show ?thesis by blast
qed








text \<open>NaN goes through the whole computation.\<close>

lemma jadd_NaN_right: "jadd x NaN = NaN"
  by (cases x) simp_all

lemma jmul_NaN_right: "jmul x NaN = NaN"
  by (cases x) simp_all

lemma calculateExpectedScore_NaN:
  "calculateExpectedScore env NaN x = NaN" "calculateExpectedScore env x NaN = NaN"
  by (simp_all add: calculateExpectedScore_def jsub_def jadd_NaN_right)

lemma newRatings_NaN:
  "newRatings env k NaN x = (NaN, NaN)" "newRatings env k x NaN = (NaN, NaN)"
  by (simp_all add: newRatings_def calculateExpectedScore_NaN jsub_def jadd_NaN_right jmul_NaN_right)

text \<open>The winner rated 1216 against 1200 gains more than one point.\<close>

lemma second_vote_rating:
  assumes "accurate_pow env"
  shows "\<exists>nw nl. newRatings env K_FACTOR (Fin 1216) (Fin 1200) = (Fin nw, Fin nl) \<and> 1217 < nw"
proof -
  have "\<bar>- (1 / 25) :: real\<bar> \<le> 1" by simp
  from round64_step [OF this] obtain x where
    x: "round64 (- (1 / 25)) = Fin x" "\<bar>x - - (1 / 25)\<bar> \<le> 1 / 2 ^ 53 + 1 / 2 ^ 64"
    by auto
  have "(1 / 2 ^ 53 + 1 / 2 ^ 64 :: real) \<le> 1 / 2" by simp
  with x(2) have x1: "- 1 \<le> x" by linarith
  have ex: "jdiv (jsub (Fin 1200) (Fin 1216)) (Fin 400) = Fin x"
    using x(1) by (simp add: jsub_def)
  from score_accurate [OF assms, of x] obtain e where
    e: "score_of (Math_pow10 env (Fin x)) = Fin e" "\<bar>e - 1 / (1 + 10 powr x)\<bar> \<le> 1 / 2 ^ 48"
    by blast
  have ce: "calculateExpectedScore env (Fin 1216) (Fin 1200) = Fin e"
    by (simp only: calculateExpectedScore_score_of ex e(1))
  have "(10::real) powr (- 1) \<le> 10 powr x"
    using x1 by (intro powr_mono) simp_all
  then have T: "1 / 10 \<le> (10::real) powr x"
    by (simp add: powr_minus_divide)
  then have "1 / (1 + 10 powr x) \<le> 1 / (1 + 1 / 10)"
    by (intro divide_left_mono) simp_all
  then have g: "1 / (1 + 10 powr x) \<le> (10 / 11 :: real)"
    by simp
  have "(1::real) / 2 ^ 48 \<le> 1 / 1000" by simp
  with e(2) g have e1: "e \<le> 10 / 11 + 1 / 1000" by linarith
  from newRatings_near [OF assms, of 32 1216 1200] obtain e1' e2 nw nl where
    c': "calculateExpectedScore env (Fin 1216) (Fin 1200) = Fin e1'"
    and n: "newRatings env (Fin 32) (Fin 1216) (Fin 1200) = (Fin nw, Fin nl)"
    and d: "\<bar>nw - (1216 + 32 * (1 - e1'))\<bar> \<le> 1003001 / 2 ^ 53 + 1 / 2 ^ 39"
    by auto
  from c' ce have "e1' = e" by simp
  with d have "\<bar>nw - (1216 + 32 * (1 - e))\<bar> \<le> 1003001 / 2 ^ 53 + 1 / 2 ^ 39"
    by simp
  moreover have "(1003001 / 2 ^ 53 + 1 / 2 ^ 39 :: real) \<le> 1 / 1000" by simp
  ultimately have "\<bar>nw - (1216 + 32 * (1 - e))\<bar> \<le> 1 / 1000"
    by (rule order_trans)
  with e1 have "1217 < nw"
    by argo
  with n show ?thesis
    by (auto simp add: K_FACTOR_def)
qed

section \<open>Properties of the vote handler\<close>

lemmas parse_defs = parseFloatStr_def parseUnsigned_def isWhiteSpace_def isDigit_def
  digitsValue_def exponentPart_def scale10_def

lemmas store_defs = select_by_id_def update_rating_def example_platform_def integer_ids_def

text \<open>A literal too large for a double reads as infinity.\<close>

lemma parseFloat_overflow: "parseFloat (Str ''1e309'') = PInf"
  by (simp add: parse_defs round64_overflow)

lemma vote_transaction_ok:
  assumes "\<not> F Begin" "\<not> F UpdateWinner" "\<not> F UpdateLoser" "\<not> F Commit"
  shows "vote_transaction env F (pg_connect db) body nw nl =
    (False,
     \<lparr>committed = update_rating env nl (loserId body) (update_rating env nw (winnerId body) db),
      pending = None\<rparr>,
     [Begin, UpdateWinner, UpdateLoser, Commit])"
  using assms
  by (simp add: vote_transaction_def pg_connect_def pg_begin_def pg_exec_def pg_commit_def)

lemma vote_transaction_threw:
  assumes "F Begin \<or> F UpdateWinner \<or> F UpdateLoser \<or> F Commit"
  shows "\<exists>c calls. vote_transaction env F (pg_connect db) body nw nl = (True, c, calls)
            \<and> committed c = db"
  using assms
  by (auto simp add: vote_transaction_def pg_connect_def pg_begin_def pg_exec_def Let_def)

lemma vote_persist_ok:
  assumes "\<not> F Connect" "\<not> F Begin" "\<not> F UpdateWinner" "\<not> F UpdateLoser" "\<not> F Commit"
  shows "vote_persist env F db body nw nl =
    (VoteResult nw nl,
     update_rating env nl (loserId body) (update_rating env nw (winnerId body) db),
     [Connect, Begin, UpdateWinner, UpdateLoser, Commit])"
  using assms
  by (simp add: vote_persist_def vote_transaction_ok pg_release_def)

lemma vote_persist_failed:
  assumes "F Connect \<or> F Begin \<or> F UpdateWinner \<or> F UpdateLoser \<or> F Commit"
  shows "\<exists>calls. vote_persist env F db body nw nl = (Err 500 ''Vote failed'', db, calls)"
proof (cases "F Connect")
  case True
  then show ?thesis by (simp add: vote_persist_def)
next
  case False
  with assms have "F Begin \<or> F UpdateWinner \<or> F UpdateLoser \<or> F Commit" by simp
  from vote_transaction_threw [OF this, of env db body nw nl]
  obtain c calls where "vote_transaction env F (pg_connect db) body nw nl = (True, c, calls)"
    and "committed c = db" by blast
  with False show ?thesis
    by (simp add: vote_persist_def pg_release_def pg_rollback_def)
qed

lemma vote_compute_Inl:
  "vote_compute env F db body = (Inl resp, calls) \<Longrightarrow> \<exists>code msg. resp = Err code msg"
  by (auto simp add: vote_compute_def Let_def split: if_splits)

lemma vote_compute_ok:
  assumes "\<not> falsy (winnerId body)" "\<not> falsy (loserId body)"
    and "\<not> F SelectWinner" "\<not> F SelectLoser"
    and "select_by_id env (winnerId body) db = w # ws" "select_by_id env (loserId body) db = l # ls"
  shows "vote_compute env F db body =
    (Inr (newRatings env K_FACTOR (parseFloat (rating w)) (parseFloat (rating l))),
     [SelectWinner, SelectLoser])"
  using assms by (simp add: vote_compute_def)

lemma vote_compute_invalid:
  assumes "falsy (winnerId body) \<or> falsy (loserId body)"
  shows "vote_compute env F db body = (Inl (Err 400 ''winnerId and loserId are required''), [])"
  using assms by (auto simp add: vote_compute_def)

lemma vote_compute_calls:
  assumes "\<not> falsy (winnerId body)" "\<not> falsy (loserId body)"
  shows "\<exists>calls. snd (vote_compute env F db body) = SelectWinner # calls"
  using assms by (simp add: vote_compute_def Let_def)

lemma vote_compute_not_400:
  assumes "\<not> falsy (winnerId body)" "\<not> falsy (loserId body)"
  shows "fst (vote_compute env F db body) \<noteq> Inl (Err 400 ''winnerId and loserId are required'')"
  using assms by (simp add: vote_compute_def Let_def)

lemma vote_cases:
  "(\<exists>nw nl calls. vote env F db body =
        (VoteResult nw nl,
         update_rating env nl (loserId body) (update_rating env nw (winnerId body) db), calls)
      \<and> fst (vote_compute env F db body) = Inr (nw, nl)
      \<and> \<not> (F Connect \<or> F Begin \<or> F UpdateWinner \<or> F UpdateLoser \<or> F Commit))
   \<or> (\<exists>code msg calls. vote env F db body = (Err code msg, db, calls))"
proof (cases "vote_compute env F db body")
  case (Pair res calls)
  show ?thesis
  proof (cases res)
    case (Inl resp)
    with Pair vote_compute_Inl [of env F db body resp calls]
    show ?thesis by (auto simp add: vote_def)
  next
    case (Inr rs)
    obtain nw nl where rs: "rs = (nw, nl)" by (cases rs)
    show ?thesis
    proof (cases "F Connect \<or> F Begin \<or> F UpdateWinner \<or> F UpdateLoser \<or> F Commit")
      case True
      from vote_persist_failed [OF True, of env db body nw nl]
      obtain calls' where "vote_persist env F db body nw nl = (Err 500 ''Vote failed'', db, calls')"
        by blast
      with Pair Inr rs show ?thesis by (simp add: vote_def)
    next
      case False
      then have "vote_persist env F db body nw nl =
        (VoteResult nw nl,
         update_rating env nl (loserId body) (update_rating env nw (winnerId body) db),
         [Connect, Begin, UpdateWinner, UpdateLoser, Commit])"
        by (simp add: vote_persist_ok)
      with Pair Inr rs False show ?thesis by (simp add: vote_def)
    qed
  qed
qed

lemma vote_persistence_failure:
  assumes "fst (vote_compute env F db body) = Inr (nw, nl)"
    and "F Connect \<or> F Begin \<or> F UpdateWinner \<or> F UpdateLoser \<or> F Commit"
  shows "\<exists>calls. vote env F db body = (Err 500 ''Vote failed'', db, calls)"
proof -
  obtain calls where c: "vote_compute env F db body = (Inr (nw, nl), calls)"
    using assms(1) by (cases "vote_compute env F db body") simp
  from vote_persist_failed [OF assms(2), of env db body nw nl]
  obtain calls' where "vote_persist env F db body nw nl = (Err 500 ''Vote failed'', db, calls')"
    by blast
  with c show ?thesis by (simp add: vote_def)
qed

lemma vote_no_failure:
  assumes "fst (vote_compute env F db body) = Inr (nw, nl)"
    and "\<not> (F Connect \<or> F Begin \<or> F UpdateWinner \<or> F UpdateLoser \<or> F Commit)"
  shows "vote env F db body =
    (VoteResult nw nl,
     update_rating env nl (loserId body) (update_rating env nw (winnerId body) db),
     snd (vote_compute env F db body) @ [Connect, Begin, UpdateWinner, UpdateLoser, Commit])"
proof -
  obtain calls where c: "vote_compute env F db body = (Inr (nw, nl), calls)"
    using assms(1) by (cases "vote_compute env F db body") simp
  with assms(2) show ?thesis by (simp add: vote_def vote_persist_ok)
qed

text \<open>
  Claim C7. The two UPDATEs of a vote take effect together or not at all: a vote ends
  either with a success response and both UPDATEs applied to the table, or with an error
  response and the table as it was. When the ratings were computed and any call of the
  persistence part (connect, BEGIN, either UPDATE, COMMIT) fails, the table is unchanged
  and the caller gets status 500 with the error \<^verbatim>\<open>Vote failed\<close>; when none of them
  fails, the vote succeeds and both UPDATEs are in the table.
\<close>

theorem vote_atomic:
  "((\<exists>nw nl calls. vote env F db body =
        (VoteResult nw nl,
         update_rating env nl (loserId body) (update_rating env nw (winnerId body) db), calls))
    \<or> (\<exists>code msg calls. vote env F db body = (Err code msg, db, calls)))
   \<and> (fst (vote_compute env F db body) = Inr (nw, nl)
        \<and> (F Connect \<or> F Begin \<or> F UpdateWinner \<or> F UpdateLoser \<or> F Commit)
      \<longrightarrow> (\<exists>calls. vote env F db body = (Err 500 ''Vote failed'', db, calls)))
   \<and> (fst (vote_compute env F db body) = Inr (nw, nl)
        \<and> \<not> (F Connect \<or> F Begin \<or> F UpdateWinner \<or> F UpdateLoser \<or> F Commit)
      \<longrightarrow> vote env F db body =
            (VoteResult nw nl,
             update_rating env nl (loserId body) (update_rating env nw (winnerId body) db),
             snd (vote_compute env F db body) @ [Connect, Begin, UpdateWinner, UpdateLoser, Commit]))"
proof (intro conjI impI)
  show "(\<exists>nw nl calls. vote env F db body =
        (VoteResult nw nl,
         update_rating env nl (loserId body) (update_rating env nw (winnerId body) db), calls))
    \<or> (\<exists>code msg calls. vote env F db body = (Err code msg, db, calls))"
    using vote_cases [of env F db body] by blast
next
  assume "fst (vote_compute env F db body) = Inr (nw, nl)
        \<and> (F Connect \<or> F Begin \<or> F UpdateWinner \<or> F UpdateLoser \<or> F Commit)"
  then show "\<exists>calls. vote env F db body = (Err 500 ''Vote failed'', db, calls)"
    using vote_persistence_failure by blast
next
  assume "fst (vote_compute env F db body) = Inr (nw, nl)
        \<and> \<not> (F Connect \<or> F Begin \<or> F UpdateWinner \<or> F UpdateLoser \<or> F Commit)"
  then show "vote env F db body =
            (VoteResult nw nl,
             update_rating env nl (loserId body) (update_rating env nw (winnerId body) db),
             snd (vote_compute env F db body) @ [Connect, Begin, UpdateWinner, UpdateLoser, Commit])"
    using vote_no_failure by blast
qed

text \<open>
  An instance: the UPDATE of the loser fails after the UPDATE of the winner went through.
  The transaction is rolled back, the table is as before and the answer is status 500.
\<close>

theorem vote_atomic_witness:
  "vote example_platform (\<lambda>c. c = UpdateLoser) example_images \<lparr>winnerId = Number (Fin 1), loserId = Number (Fin 2)\<rparr>
     = (Err 500 ''Vote failed'', example_images,
        [SelectWinner, SelectLoser, Connect, Begin, UpdateWinner, UpdateLoser, Rollback])"
proof -
  have c: "vote_compute example_platform (\<lambda>c. c = UpdateLoser) example_images
       \<lparr>winnerId = Number (Fin 1), loserId = Number (Fin 2)\<rparr>
     = (Inr (Fin 1216, Fin 1184), [SelectWinner, SelectLoser])"
    by (simp add: vote_compute_def store_defs example_images_def parse_defs
        newRatings_equal)
  from vote_atomic [of example_platform "\<lambda>c. c = UpdateLoser" example_images
      "\<lparr>winnerId = Number (Fin 1), loserId = Number (Fin 2)\<rparr>" "Fin 1216" "Fin 1184"] c
  have "\<exists>calls. vote example_platform (\<lambda>c. c = UpdateLoser) example_images
       \<lparr>winnerId = Number (Fin 1), loserId = Number (Fin 2)\<rparr>
       = (Err 500 ''Vote failed'', example_images, calls)"
    by simp
  moreover have "snd (snd (vote example_platform (\<lambda>c. c = UpdateLoser) example_images
       \<lparr>winnerId = Number (Fin 1), loserId = Number (Fin 2)\<rparr>))
     = [SelectWinner, SelectLoser, Connect, Begin, UpdateWinner, UpdateLoser, Rollback]"
    using c
    by (simp add: vote_def vote_persist_def vote_transaction_def pg_connect_def pg_begin_def
        pg_exec_def pg_rollback_def pg_release_def)
  ultimately show ?thesis by auto
qed

lemma vote_persist_response:
  "fst (vote_persist env F db body nw nl) = Err 500 ''Vote failed''
   \<or> fst (vote_persist env F db body nw nl) = VoteResult nw nl"
proof (cases "F Connect \<or> F Begin \<or> F UpdateWinner \<or> F UpdateLoser \<or> F Commit")
  case True
  from vote_persist_failed [OF True, of env db body nw nl] show ?thesis by auto
next
  case False
  then show ?thesis by (simp add: vote_persist_ok)
qed

lemma vote_reaches_storage:
  assumes "\<not> falsy (winnerId body)" "\<not> falsy (loserId body)"
  shows "\<exists>resp db' calls. vote env F db body = (resp, db', SelectWinner # calls)
           \<and> resp \<noteq> Err 400 ''winnerId and loserId are required''"
proof (cases "vote_compute env F db body")
  case (Pair res calls0)
  from vote_compute_calls [OF assms, of env F db] Pair
  obtain calls1 where calls0: "calls0 = SelectWinner # calls1" by auto
  from vote_compute_not_400 [OF assms, of env F db] Pair
  have res: "res \<noteq> Inl (Err 400 ''winnerId and loserId are required'')" by simp
  show ?thesis
  proof (cases res)
    case (Inl resp)
    with Pair calls0 res show ?thesis by (simp add: vote_def)
  next
    case (Inr rs)
    obtain nw nl where rs: "rs = (nw, nl)" by (cases rs)
    obtain resp db' calls' where p: "vote_persist env F db body nw nl = (resp, db', calls')"
      by (cases "vote_persist env F db body nw nl")
    with vote_persist_response [of env F db body nw nl]
    have "resp \<noteq> Err 400 ''winnerId and loserId are required''" by auto
    with Pair Inr rs p calls0 show ?thesis by (simp add: vote_def)
  qed
qed

text \<open>
  Claim C1, as the code has it. The only validation of a vote is that both ids are
  truthy: a vote with a missing or falsy \<^verbatim>\<open>winnerId\<close> or \<^verbatim>\<open>loserId\<close> is answered with
  status 400 before any storage call, the table untouched. Two equal ids are not
  rejected: for every truthy id a vote of the id against itself goes on to the first
  SELECT and is not answered with the validation error.
\<close>

theorem vote_validation:
  "(falsy (winnerId body) \<or> falsy (loserId body)
      \<longrightarrow> vote env F db body = (Err 400 ''winnerId and loserId are required'', db, []))
   \<and> (\<not> falsy i
      \<longrightarrow> (\<exists>resp db' calls.
             vote env F db \<lparr>winnerId = i, loserId = i\<rparr> = (resp, db', SelectWinner # calls)
             \<and> resp \<noteq> Err 400 ''winnerId and loserId are required''))"
proof (intro conjI impI)
  assume "falsy (winnerId body) \<or> falsy (loserId body)"
  then show "vote env F db body = (Err 400 ''winnerId and loserId are required'', db, [])"
    by (simp add: vote_def vote_compute_invalid)
next
  assume "\<not> falsy i"
  then show "\<exists>resp db' calls.
             vote env F db \<lparr>winnerId = i, loserId = i\<rparr> = (resp, db', SelectWinner # calls)
             \<and> resp \<noteq> Err 400 ''winnerId and loserId are required''"
    using vote_reaches_storage [of "\<lparr>winnerId = i, loserId = i\<rparr>" env F db] by simp
qed

text \<open>An instance: a vote without \<^verbatim>\<open>winnerId\<close>, and image 1 against itself.\<close>

theorem vote_validation_witness:
  "vote example_platform no_faults example_images \<lparr>winnerId = Undefined, loserId = Number (Fin 2)\<rparr>
     = (Err 400 ''winnerId and loserId are required'', example_images, [])
   \<and> (\<exists>resp db' calls.
         vote example_platform no_faults example_images \<lparr>winnerId = Number (Fin 1), loserId = Number (Fin 1)\<rparr>
           = (resp, db', SelectWinner # calls)
         \<and> resp \<noteq> Err 400 ''winnerId and loserId are required'')"
  using vote_validation [of "\<lparr>winnerId = Undefined, loserId = Number (Fin 2)\<rparr>"
      example_platform no_faults example_images "Number (Fin 1)"]
  by simp

text \<open>
  The claim C1 as stated fails: the vote of image 1 against itself is answered with
  success after both SELECTs and both UPDATEs.
\<close>

theorem self_vote_accepted:
  "vote example_platform no_faults example_images \<lparr>winnerId = Number (Fin 1), loserId = Number (Fin 1)\<rparr>
    = (VoteResult (Fin 1216) (Fin 1184),
       [\<lparr>image_id = Number (Fin 1), name = ''doge'', image_url = ''https://ik.example/1'',
         rating = Number (Fin 1184), matches_played = 2\<rparr>,
        \<lparr>image_id = Number (Fin 2), name = ''pepe'', image_url = ''https://ik.example/2'',
         rating = Str ''1200'', matches_played = 0\<rparr>,
        \<lparr>image_id = Number (Fin 3), name = ''cat'', image_url = ''https://ik.example/3'',
         rating = Str ''1200'', matches_played = 0\<rparr>],
       [SelectWinner, SelectLoser, Connect, Begin, UpdateWinner, UpdateLoser, Commit])"
proof -
  have c: "vote_compute example_platform no_faults example_images \<lparr>winnerId = Number (Fin 1), loserId = Number (Fin 1)\<rparr>
     = (Inr (Fin 1216, Fin 1184), [SelectWinner, SelectLoser])"
    by (simp add: vote_compute_def no_faults_def store_defs example_images_def parse_defs
        newRatings_equal)
  then show ?thesis
    by (simp add: vote_def vote_persist_ok no_faults_def store_defs example_images_def)
qed

lemma newRatings_NaN_either:
  assumes "a = NaN \<or> b = NaN"
  shows "newRatings env k a b = (NaN, NaN)"
  using assms newRatings_NaN by auto

lemma vote_ok:
  assumes "\<not> falsy (winnerId body)" "\<not> falsy (loserId body)" "\<forall>c. \<not> F c"
    and "select_by_id env (winnerId body) db = w # ws" "select_by_id env (loserId body) db = l # ls"
    and "newRatings env K_FACTOR (parseFloat (rating w)) (parseFloat (rating l)) = (nw, nl)"
  shows "vote env F db body =
    (VoteResult nw nl,
     update_rating env nl (loserId body) (update_rating env nw (winnerId body) db),
     [SelectWinner, SelectLoser, Connect, Begin, UpdateWinner, UpdateLoser, Commit])"
proof -
  have "vote_compute env F db body = (Inr (nw, nl), [SelectWinner, SelectLoser])"
    using assms by (simp add: vote_compute_ok)
  with assms(3) show ?thesis
    by (simp add: vote_def vote_persist_ok)
qed

text \<open>
  Claim C3, as the code has it. The ratings read from the table go through
  \<^verbatim>\<open>parseFloat\<close> before any arithmetic: when both ids are truthy, both rows exist and
  no call fails, the new ratings are the Elo update of the two parsed values, the vote
  succeeds and both are written. The parsed values are not checked: when either rating
  parses to NaN, both new ratings are NaN, and NaN is what the response carries and
  what is written to the rows of both ids.
\<close>

theorem vote_parses_before_arithmetic:
  "\<not> falsy (winnerId body) \<and> \<not> falsy (loserId body) \<and> (\<forall>c. \<not> F c)
     \<and> select_by_id env (winnerId body) db = w # ws \<and> select_by_id env (loserId body) db = l # ls
   \<longrightarrow> (\<exists>nw nl.
         newRatings env K_FACTOR (parseFloat (rating w)) (parseFloat (rating l)) = (nw, nl)
         \<and> vote env F db body =
             (VoteResult nw nl,
              update_rating env nl (loserId body) (update_rating env nw (winnerId body) db),
              [SelectWinner, SelectLoser, Connect, Begin, UpdateWinner, UpdateLoser, Commit])
         \<and> (parseFloat (rating w) = NaN \<or> parseFloat (rating l) = NaN
              \<longrightarrow> nw = NaN \<and> nl = NaN))"
proof
  assume a: "\<not> falsy (winnerId body) \<and> \<not> falsy (loserId body) \<and> (\<forall>c. \<not> F c)
     \<and> select_by_id env (winnerId body) db = w # ws \<and> select_by_id env (loserId body) db = l # ls"
  obtain nw nl where n: "newRatings env K_FACTOR (parseFloat (rating w)) (parseFloat (rating l)) = (nw, nl)"
    by (cases "newRatings env K_FACTOR (parseFloat (rating w)) (parseFloat (rating l))")
  from a n have "vote env F db body =
             (VoteResult nw nl,
              update_rating env nl (loserId body) (update_rating env nw (winnerId body) db),
              [SelectWinner, SelectLoser, Connect, Begin, UpdateWinner, UpdateLoser, Commit])"
    using vote_ok [of body F env db w ws l ls nw nl] by blast
  moreover have "parseFloat (rating w) = NaN \<or> parseFloat (rating l) = NaN
              \<longrightarrow> nw = NaN \<and> nl = NaN"
    using n newRatings_NaN_either [of "parseFloat (rating w)" "parseFloat (rating l)" env K_FACTOR]
    by auto
  ultimately show "\<exists>nw nl.
         newRatings env K_FACTOR (parseFloat (rating w)) (parseFloat (rating l)) = (nw, nl)
         \<and> vote env F db body =
             (VoteResult nw nl,
              update_rating env nl (loserId body) (update_rating env nw (winnerId body) db),
              [SelectWinner, SelectLoser, Connect, Begin, UpdateWinner, UpdateLoser, Commit])
         \<and> (parseFloat (rating w) = NaN \<or> parseFloat (rating l) = NaN
              \<longrightarrow> nw = NaN \<and> nl = NaN)"
    using n by blast
qed

text \<open>
  The claim C3 as stated fails: with the rating \<^verbatim>\<open>NaN\<close> stored for image 1, a vote of
  image 1 over image 2 succeeds and writes NaN as the rating of both images.
\<close>

theorem nan_rating_written:
  "vote example_platform no_faults nan_images \<lparr>winnerId = Number (Fin 1), loserId = Number (Fin 2)\<rparr>
    = (VoteResult NaN NaN,
       [\<lparr>image_id = Number (Fin 1), name = ''doge'', image_url = ''https://ik.example/1'',
         rating = Number NaN, matches_played = 5\<rparr>,
        \<lparr>image_id = Number (Fin 2), name = ''pepe'', image_url = ''https://ik.example/2'',
         rating = Number NaN, matches_played = 8\<rparr>],
       [SelectWinner, SelectLoser, Connect, Begin, UpdateWinner, UpdateLoser, Commit])"
proof -
  have c: "vote_compute example_platform no_faults nan_images \<lparr>winnerId = Number (Fin 1), loserId = Number (Fin 2)\<rparr>
     = (Inr (NaN, NaN), [SelectWinner, SelectLoser])"
    by (simp add: vote_compute_def no_faults_def store_defs nan_images_def parse_defs
        newRatings_NaN)
  then show ?thesis
    by (simp add: vote_def vote_persist_ok no_faults_def store_defs nan_images_def)
qed

text \<open>An instance: image 2 (rated 1200) over image 1 (rated NaN).\<close>

theorem vote_parses_before_arithmetic_witness:
  "\<exists>nw nl. newRatings example_platform K_FACTOR (parseFloat (Str ''1200'')) (parseFloat (Str ''NaN'')) = (nw, nl)
     \<and> vote example_platform no_faults nan_images \<lparr>winnerId = Number (Fin 2), loserId = Number (Fin 1)\<rparr>
         = (VoteResult nw nl,
            update_rating example_platform nl (Number (Fin 1)) (update_rating example_platform nw (Number (Fin 2)) nan_images),
            [SelectWinner, SelectLoser, Connect, Begin, UpdateWinner, UpdateLoser, Commit])
     \<and> nw = NaN \<and> nl = NaN"
proof -
  have s2: "select_by_id example_platform (Number (Fin 2)) nan_images = [nan_images ! 1]"
    and s1: "select_by_id example_platform (Number (Fin 1)) nan_images = [nan_images ! 0]"
    by (simp_all add: store_defs nan_images_def)
  have r: "rating (nan_images ! 1) = Str ''1200''" "rating (nan_images ! 0) = Str ''NaN''"
    by (simp_all add: nan_images_def)
  have p: "parseFloat (Str ''NaN'') = NaN"
    by (simp add: parse_defs)
  from vote_parses_before_arithmetic [of "\<lparr>winnerId = Number (Fin 2), loserId = Number (Fin 1)\<rparr>"
      no_faults example_platform nan_images "nan_images ! 1" "[]" "nan_images ! 0" "[]"] s1 s2 r p
  show ?thesis
    by (simp add: no_faults_def)
qed

lemma update_rating_twice:
  "update_rating env nl i (update_rating env nw i db) =
     map (\<lambda>r. if id_selects env i (image_id r)
               then r\<lparr>rating := Number nl, matches_played := matches_played r + 2\<rparr>
               else r) db"
  by (simp add: update_rating_def)

text \<open>
  Claim C10. A vote whose \<^verbatim>\<open>winnerId\<close> and \<^verbatim>\<open>loserId\<close> are the same truthy id of an
  existing image, with no call failing, completes with a success response. Every row
  with that id has its count of matches increased by 2, and its stored rating is the
  loser's new rating computed from the rating before the vote (the winner's new rating,
  written first, is overwritten); for a finite rating \<open>x\<close> before the vote that is
  \<open>x - 16\<close> rounded to a double. All other rows are unchanged.
\<close>

theorem self_vote_counts_twice:
  "\<not> falsy i \<and> (\<forall>c. \<not> F c) \<and> select_by_id env i db = r # rs
   \<longrightarrow> (\<exists>nw nl.
         newRatings env K_FACTOR (parseFloat (rating r)) (parseFloat (rating r)) = (nw, nl)
         \<and> vote env F db \<lparr>winnerId = i, loserId = i\<rparr> =
             (VoteResult nw nl,
              map (\<lambda>x. if id_selects env i (image_id x)
                        then x\<lparr>rating := Number nl, matches_played := matches_played x + 2\<rparr>
                        else x) db,
              [SelectWinner, SelectLoser, Connect, Begin, UpdateWinner, UpdateLoser, Commit])
         \<and> (\<forall>x. parseFloat (rating r) = Fin x
                \<longrightarrow> nw = round64 (x + 16) \<and> nl = round64 (x - 16)))"
proof
  assume a: "\<not> falsy i \<and> (\<forall>c. \<not> F c) \<and> select_by_id env i db = r # rs"
  obtain nw nl where n: "newRatings env K_FACTOR (parseFloat (rating r)) (parseFloat (rating r)) = (nw, nl)"
    by (cases "newRatings env K_FACTOR (parseFloat (rating r)) (parseFloat (rating r))")
  from a n have "vote env F db \<lparr>winnerId = i, loserId = i\<rparr> =
             (VoteResult nw nl,
              update_rating env nl i (update_rating env nw i db),
              [SelectWinner, SelectLoser, Connect, Begin, UpdateWinner, UpdateLoser, Commit])"
    using vote_ok [of "\<lparr>winnerId = i, loserId = i\<rparr>" F env db r rs r rs nw nl] by simp
  then have v: "vote env F db \<lparr>winnerId = i, loserId = i\<rparr> =
             (VoteResult nw nl,
              map (\<lambda>x. if id_selects env i (image_id x)
                        then x\<lparr>rating := Number nl, matches_played := matches_played x + 2\<rparr>
                        else x) db,
              [SelectWinner, SelectLoser, Connect, Begin, UpdateWinner, UpdateLoser, Commit])"
    by (simp only: update_rating_twice)
  have "\<forall>x. parseFloat (rating r) = Fin x
                \<longrightarrow> nw = round64 (x + 16) \<and> nl = round64 (x - 16)"
    using n by (auto simp add: newRatings_equal)
  with n v show "\<exists>nw nl.
         newRatings env K_FACTOR (parseFloat (rating r)) (parseFloat (rating r)) = (nw, nl)
         \<and> vote env F db \<lparr>winnerId = i, loserId = i\<rparr> =
             (VoteResult nw nl,
              map (\<lambda>x. if id_selects env i (image_id x)
                        then x\<lparr>rating := Number nl, matches_played := matches_played x + 2\<rparr>
                        else x) db,
              [SelectWinner, SelectLoser, Connect, Begin, UpdateWinner, UpdateLoser, Commit])
         \<and> (\<forall>x. parseFloat (rating r) = Fin x
                \<longrightarrow> nw = round64 (x + 16) \<and> nl = round64 (x - 16))"
    by blast
qed

text \<open>An instance: image 2, rated 1200 with 7 matches, against itself.\<close>

theorem self_vote_counts_twice_witness:
  "vote example_platform no_faults nan_images \<lparr>winnerId = Number (Fin 2), loserId = Number (Fin 2)\<rparr> =
     (VoteResult (Fin 1216) (Fin 1184),
      [\<lparr>image_id = Number (Fin 1), name = ''doge'', image_url = ''https://ik.example/1'',
        rating = Str ''NaN'', matches_played = 4\<rparr>,
       \<lparr>image_id = Number (Fin 2), name = ''pepe'', image_url = ''https://ik.example/2'',
        rating = Number (Fin 1184), matches_played = 9\<rparr>],
      [SelectWinner, SelectLoser, Connect, Begin, UpdateWinner, UpdateLoser, Commit])"
proof -
  have s: "select_by_id example_platform (Number (Fin 2)) nan_images = [nan_images ! 1]"
    by (simp add: store_defs nan_images_def)
  have p: "parseFloat (rating (nan_images ! 1)) = Fin 1200"
    by (simp add: nan_images_def parse_defs)
  from self_vote_counts_twice [of "Number (Fin 2)" no_faults example_platform nan_images "nan_images ! 1" "[]"] s p
  have "vote example_platform no_faults nan_images \<lparr>winnerId = Number (Fin 2), loserId = Number (Fin 2)\<rparr> =
     (VoteResult (Fin 1216) (Fin 1184),
      map (\<lambda>x. if id_selects example_platform (Number (Fin 2)) (image_id x)
                then x\<lparr>rating := Number (Fin 1184), matches_played := matches_played x + 2\<rparr>
                else x) nan_images,
      [SelectWinner, SelectLoser, Connect, Begin, UpdateWinner, UpdateLoser, Commit])"
    by (auto simp add: no_faults_def)
  then show ?thesis
    by (simp add: nan_images_def store_defs)
qed

lemma update_rating_ids: "map image_id (update_rating env n i db) = map image_id db"
  by (simp add: update_rating_def o_def cong: map_cong)

lemma update_rating_played:
  "map matches_played (update_rating env n i db) =
     map (\<lambda>r. if id_selects env i (image_id r) then matches_played r + 1 else matches_played r) db"
  by (simp add: update_rating_def o_def cong: map_cong)

lemma update_rating_nth:
  assumes "n < length db"
  shows "image_id (update_rating env x i db ! n) = image_id (db ! n)"
    and "matches_played (update_rating env x i db ! n) =
         (if id_selects env i (image_id (db ! n)) then matches_played (db ! n) + 1
          else matches_played (db ! n))"
  using assms by (simp_all add: update_rating_def)

lemma update_rating_length: "length (update_rating env x i db) = length db"
  by (simp add: update_rating_def)

lemma two_updates_played:
  assumes "\<forall>r \<in> set db. \<not> (id_selects env w (image_id r) \<and> id_selects env l (image_id r))"
  shows "map matches_played (update_rating env nl l (update_rating env nw w db)) =
     map (\<lambda>r. if id_selects env w (image_id r) \<or> id_selects env l (image_id r)
               then matches_played r + 1 else matches_played r) db"
  using assms by (auto simp add: update_rating_def)

lemma never_less_refl: "never_less db db"
  by (simp add: never_less_def)

lemma never_less_updates: "never_less db (update_rating env nl l (update_rating env nw w db))"
  by (simp add: never_less_def update_rating_length update_rating_nth)

lemma never_less_insert: "never_less db (insert_image i nm url db)"
  by (simp add: never_less_def insert_image_def nth_append)

lemma vote_never_less: "never_less db (fst (snd (vote env F db body)))"
  using vote_cases [of env F db body] never_less_refl never_less_updates by auto

lemma handle_never_less: "never_less db (fst (snd (handle env F db req)))"
proof (cases req)
  case (GetMatchup random)
  then show ?thesis by (simp add: matchup_def Let_def never_less_refl)
next
  case GetRankings
  then show ?thesis by (simp add: rankings_def never_less_refl)
next
  case (PostVote body)
  then show ?thesis by (simp add: vote_never_less)
next
  case (PostUpload url newId r)
  then show ?thesis
    by (simp add: upload_def never_less_refl never_less_insert split: option.split)
qed

text \<open>
  Claim C2, as the code has it. In a vote that is answered with success and in which no
  row is selected by both ids, every row selected by the winner's or by the loser's id
  has its count of matches increased by exactly 1 and every other row keeps its count.
  No request of any route, whatever calls fail, removes a row, changes an id or
  decreases a count of matches.
\<close>

theorem matches_played_counts:
  "((\<forall>r \<in> set db. \<not> (id_selects env (winnerId body) (image_id r)
                         \<and> id_selects env (loserId body) (image_id r)))
      \<and> vote env F db body = (VoteResult nw nl, db', calls)
      \<longrightarrow> map image_id db' = map image_id db
          \<and> map matches_played db' =
              map (\<lambda>r. if id_selects env (winnerId body) (image_id r)
                           \<or> id_selects env (loserId body) (image_id r)
                        then matches_played r + 1 else matches_played r) db)
   \<and> (handle env F db req = (resp, db2, calls2)
      \<longrightarrow> length db \<le> length db2
          \<and> (\<forall>n < length db. image_id (db2 ! n) = image_id (db ! n)
                \<and> matches_played (db ! n) \<le> matches_played (db2 ! n)))"
proof (intro conjI impI)
  assume a: "(\<forall>r \<in> set db. \<not> (id_selects env (winnerId body) (image_id r)
                         \<and> id_selects env (loserId body) (image_id r)))
      \<and> vote env F db body = (VoteResult nw nl, db', calls)"
  with vote_cases [of env F db body]
  obtain nw' nl' where
    db': "db' = update_rating env nl' (loserId body) (update_rating env nw' (winnerId body) db)"
    by auto
  show "map image_id db' = map image_id db"
    by (simp add: db' update_rating_ids)
  from a have "\<forall>r \<in> set db. \<not> (id_selects env (winnerId body) (image_id r)
                         \<and> id_selects env (loserId body) (image_id r))"
    by simp
  then show "map matches_played db' =
              map (\<lambda>r. if id_selects env (winnerId body) (image_id r)
                           \<or> id_selects env (loserId body) (image_id r)
                        then matches_played r + 1 else matches_played r) db"
    unfolding db' by (rule two_updates_played)
next
  assume "handle env F db req = (resp, db2, calls2)"
  with handle_never_less [of db env F req] have n: "never_less db db2" by simp
  from n show "length db \<le> length db2"
    by (simp add: never_less_def)
  from n show "\<forall>n < length db. image_id (db2 ! n) = image_id (db ! n)
                \<and> matches_played (db ! n) \<le> matches_played (db2 ! n)"
    by (simp add: never_less_def)
qed

lemma example_vote_1_2:
  "vote example_platform no_faults example_images \<lparr>winnerId = Number (Fin 1), loserId = Number (Fin 2)\<rparr>
    = (VoteResult (Fin 1216) (Fin 1184),
       [\<lparr>image_id = Number (Fin 1), name = ''doge'', image_url = ''https://ik.example/1'',
         rating = Number (Fin 1216), matches_played = 1\<rparr>,
        \<lparr>image_id = Number (Fin 2), name = ''pepe'', image_url = ''https://ik.example/2'',
         rating = Number (Fin 1184), matches_played = 1\<rparr>,
        \<lparr>image_id = Number (Fin 3), name = ''cat'', image_url = ''https://ik.example/3'',
         rating = Str ''1200'', matches_played = 0\<rparr>],
       [SelectWinner, SelectLoser, Connect, Begin, UpdateWinner, UpdateLoser, Commit])"
proof -
  have c: "vote_compute example_platform no_faults example_images \<lparr>winnerId = Number (Fin 1), loserId = Number (Fin 2)\<rparr>
     = (Inr (Fin 1216, Fin 1184), [SelectWinner, SelectLoser])"
    by (simp add: vote_compute_def no_faults_def store_defs example_images_def parse_defs
        newRatings_equal)
  then show ?thesis
    by (simp add: vote_def vote_persist_ok no_faults_def store_defs example_images_def)
qed

text \<open>An instance: image 1 over image 2, and image 3, which does not take part.\<close>

theorem matches_played_counts_witness:
  "map matches_played
     (fst (snd (vote example_platform no_faults example_images \<lparr>winnerId = Number (Fin 1), loserId = Number (Fin 2)\<rparr>)))
     = [1, 1, 0]
   \<and> map matches_played example_images = [0, 0, 0]
   \<and> matches_played (example_images ! 2)
       \<le> matches_played (fst (snd (handle example_platform no_faults example_images
            (PostVote \<lparr>winnerId = Number (Fin 1), loserId = Number (Fin 2)\<rparr>))) ! 2)"
proof -
  let ?b = "\<lparr>winnerId = Number (Fin 1), loserId = Number (Fin 2)\<rparr>"
  obtain db' calls where v: "vote example_platform no_faults example_images ?b = (VoteResult (Fin 1216) (Fin 1184), db', calls)"
    using example_vote_1_2 by simp
  then have h: "handle example_platform no_faults example_images (PostVote ?b) = (VoteResult (Fin 1216) (Fin 1184), db', calls)"
    by simp
  have d: "\<forall>r \<in> set example_images.
      \<not> (id_selects example_platform (winnerId ?b) (image_id r)
         \<and> id_selects example_platform (loserId ?b) (image_id r))"
    by (simp add: example_images_def store_defs)
  from matches_played_counts [of example_images example_platform ?b no_faults
      "Fin 1216" "Fin 1184" db' calls
      "PostVote ?b" "VoteResult (Fin 1216) (Fin 1184)" db' calls] v h d
  have m: "map matches_played db' =
          map (\<lambda>r. if id_selects example_platform (Number (Fin 1)) (image_id r)
                       \<or> id_selects example_platform (Number (Fin 2)) (image_id r)
                    then matches_played r + 1 else matches_played r) example_images"
    and n: "\<forall>n < length example_images.
           matches_played (example_images ! n) \<le> matches_played (db' ! n)"
    by simp_all
  have "length example_images = 3"
    by (simp add: example_images_def)
  with n have "matches_played (example_images ! 2) \<le> matches_played (db' ! 2)"
    by simp
  moreover from m have "map matches_played db' = [1, 1, 0]"
    by (simp add: example_images_def store_defs)
  moreover have "map matches_played example_images = [0, 0, 0]"
    by (simp add: example_images_def)
  ultimately show ?thesis
    using v h by simp
qed

text \<open>
  The claim C2 as stated fails: in the successful vote of image 2 against itself the
  count of matches of image 2 goes from 0 to 2. The same happens to image 1 in the vote
  with the string \<^verbatim>\<open>"1"\<close> as \<^verbatim>\<open>winnerId\<close> and the number 1 as \<^verbatim>\<open>loserId\<close>: the two
  values differ and select the same row.
\<close>

theorem self_vote_counted_twice:
  "fst (vote example_platform no_faults example_images
          \<lparr>winnerId = Number (Fin 2), loserId = Number (Fin 2)\<rparr>)
     = VoteResult (Fin 1216) (Fin 1184)
   \<and> map matches_played example_images = [0, 0, 0]
   \<and> map matches_played
       (fst (snd (vote example_platform no_faults example_images
          \<lparr>winnerId = Number (Fin 2), loserId = Number (Fin 2)\<rparr>)))
     = [0, 2, 0]
   \<and> fst (vote example_platform no_faults example_images
          \<lparr>winnerId = Str ''1'', loserId = Number (Fin 1)\<rparr>)
     = VoteResult (Fin 1216) (Fin 1184)
   \<and> map matches_played
       (fst (snd (vote example_platform no_faults example_images
          \<lparr>winnerId = Str ''1'', loserId = Number (Fin 1)\<rparr>)))
     = [2, 0, 0]"
proof -
  have c: "vote_compute example_platform no_faults example_images
       \<lparr>winnerId = Number (Fin 2), loserId = Number (Fin 2)\<rparr>
     = (Inr (Fin 1216, Fin 1184), [SelectWinner, SelectLoser])"
    by (simp add: vote_compute_def no_faults_def store_defs example_images_def parse_defs
        newRatings_equal)
  have t: "integer_text ''1'' = Some 1"
    by (simp add: integer_text_def isWhiteSpace_def isDigit_def digitsValue_def)
  have c': "vote_compute example_platform no_faults example_images
       \<lparr>winnerId = Str ''1'', loserId = Number (Fin 1)\<rparr>
     = (Inr (Fin 1216, Fin 1184), [SelectWinner, SelectLoser])"
    by (simp add: vote_compute_def no_faults_def store_defs example_images_def parse_defs
        newRatings_equal t)
  from c c' show ?thesis
    by (simp add: vote_def vote_persist_ok no_faults_def store_defs example_images_def t)
qed

section \<open>Properties of the matchup route\<close>

lemma order_by_random_mset: "mset (order_by_random random db) = mset db"
proof -
  let ?zs = "zip (map random [0..<length db]) db"
  have "mset (map snd (sort_key fst ?zs)) = image_mset snd (mset (sort_key fst ?zs))"
    by (rule mset_map)
  also have "\<dots> = image_mset snd (mset ?zs)"
    by (simp only: mset_sort)
  also have "\<dots> = mset (map snd ?zs)"
    by (rule mset_map [symmetric])
  also have "map snd ?zs = db"
    by (simp add: map_snd_zip)
  finally show ?thesis
    by (simp only: order_by_random_def)
qed

lemma order_by_random_length: "length (order_by_random random db) = length db"
  using order_by_random_mset [of random db] by (rule mset_eq_length)

lemma order_by_random_set: "set (order_by_random random db) = set db"
  using order_by_random_mset [of random db] by (rule mset_eq_setD)

lemma order_by_random_distinct:
  assumes "distinct (map image_id db)"
  shows "distinct (map image_id (order_by_random random db))"
proof -
  have "mset (map image_id (order_by_random random db)) = mset (map image_id db)"
    by (simp add: order_by_random_mset)
  then show ?thesis
    using assms mset_eq_imp_distinct_iff by blast
qed

lemma select_random_two_enough:
  assumes "2 \<le> length db" "distinct (map image_id db)"
  shows "\<exists>a b. select_random_two random db = [a, b] \<and> a \<in> set db \<and> b \<in> set db
           \<and> image_id a \<noteq> image_id b"
proof -
  from assms(1) have "2 \<le> length (order_by_random random db)"
    by (simp add: order_by_random_length)
  then obtain a b rest where o: "order_by_random random db = a # b # rest"
    by (cases "order_by_random random db"; cases "tl (order_by_random random db)") auto
  from order_by_random_distinct [OF assms(2), of random] o
  have "image_id a \<noteq> image_id b" by simp
  moreover from order_by_random_set [of random db] o
  have "a \<in> set db" "b \<in> set db" by auto
  moreover have "select_random_two random db = [a, b]"
    by (simp add: select_random_two_def o)
  ultimately show ?thesis by blast
qed

lemma select_random_two_short:
  assumes "length db < 2"
  shows "length (select_random_two random db) < 2"
  using assms by (simp add: select_random_two_def order_by_random_length)

text \<open>
  Claim C8. When the query does not fail and the table has at least two rows (with ids
  that are unique), the matchup route answers with exactly two rows of the table, and
  they are different images. When the query does not fail and the table has fewer than
  two rows, it answers with status 404 and the error \<^verbatim>\<open>Not enough images.\<close>, and no
  rows. When the query fails it answers with status 500. The table is never changed.
\<close>

theorem matchup_two_distinct_or_error:
  "(\<not> F SelectMatchup \<and> 2 \<le> length db \<and> distinct (map image_id db)
      \<longrightarrow> (\<exists>a b. matchup F random db = (Rows [a, b], db, [SelectMatchup])
             \<and> a \<in> set db \<and> b \<in> set db \<and> image_id a \<noteq> image_id b \<and> a \<noteq> b))
   \<and> (\<not> F SelectMatchup \<and> length db < 2
      \<longrightarrow> matchup F random db = (Err 404 ''Not enough images.'', db, [SelectMatchup]))
   \<and> (F SelectMatchup
      \<longrightarrow> matchup F random db = (Err 500 ''Server error'', db, [SelectMatchup]))"
proof (intro conjI impI)
  assume a: "\<not> F SelectMatchup \<and> 2 \<le> length db \<and> distinct (map image_id db)"
  then obtain a b where ab: "select_random_two random db = [a, b]" "a \<in> set db" "b \<in> set db"
      "image_id a \<noteq> image_id b"
    using select_random_two_enough [of db random] by blast
  then have "a \<noteq> b" by auto
  with a ab show "\<exists>a b. matchup F random db = (Rows [a, b], db, [SelectMatchup])
             \<and> a \<in> set db \<and> b \<in> set db \<and> image_id a \<noteq> image_id b \<and> a \<noteq> b"
    by (simp add: matchup_def)
next
  assume "\<not> F SelectMatchup \<and> length db < 2"
  then show "matchup F random db = (Err 404 ''Not enough images.'', db, [SelectMatchup])"
    using select_random_two_short [of db random] by (simp add: matchup_def)
next
  assume "F SelectMatchup"
  then show "matchup F random db = (Err 500 ''Server error'', db, [SelectMatchup])"
    by (simp add: matchup_def)
qed

text \<open>
  Instances: the three example images, a table with one image, and a failing query.
\<close>

theorem matchup_two_distinct_or_error_witness:
  "(\<exists>a b. matchup no_faults (\<lambda>n. 1 / (1 + real n)) example_images
             = (Rows [a, b], example_images, [SelectMatchup])
        \<and> a \<in> set example_images \<and> b \<in> set example_images
        \<and> image_id a \<noteq> image_id b \<and> a \<noteq> b)
   \<and> matchup no_faults (\<lambda>n. 1 / (1 + real n)) [example_images ! 0]
        = (Err 404 ''Not enough images.'', [example_images ! 0], [SelectMatchup])
   \<and> matchup (\<lambda>c. c = SelectMatchup) (\<lambda>n. 1 / (1 + real n)) example_images
        = (Err 500 ''Server error'', example_images, [SelectMatchup])"
proof -
  have d: "distinct (map image_id example_images)" "2 \<le> length example_images"
    by (simp_all add: example_images_def)
  from matchup_two_distinct_or_error [of no_faults example_images "\<lambda>n. 1 / (1 + real n)"] d
  have "\<exists>a b. matchup no_faults (\<lambda>n. 1 / (1 + real n)) example_images
             = (Rows [a, b], example_images, [SelectMatchup])
        \<and> a \<in> set example_images \<and> b \<in> set example_images
        \<and> image_id a \<noteq> image_id b \<and> a \<noteq> b"
    by (simp add: no_faults_def)
  moreover
  from matchup_two_distinct_or_error [of no_faults "[example_images ! 0]" "\<lambda>n. 1 / (1 + real n)"]
  have "matchup no_faults (\<lambda>n. 1 / (1 + real n)) [example_images ! 0]
        = (Err 404 ''Not enough images.'', [example_images ! 0], [SelectMatchup])"
    by (simp add: no_faults_def)
  moreover
  from matchup_two_distinct_or_error [of "\<lambda>c. c = SelectMatchup" example_images "\<lambda>n. 1 / (1 + real n)"]
  have "matchup (\<lambda>c. c = SelectMatchup) (\<lambda>n. 1 / (1 + real n)) example_images
        = (Err 500 ''Server error'', example_images, [SelectMatchup])"
    by simp
  ultimately show ?thesis by blast
qed

section \<open>Properties of votes in flight\<close>

lemma one_after_the_other:
  "run env F [0, 0, 1, 1] (db, [Received a, Received b]) =
     (fst (snd (vote env F (fst (snd (vote env F db a))) b)),
      [Replied (fst (vote env F db a)), Replied (fst (vote env F (fst (snd (vote env F db a))) b))])"
proof -
  have first: "run env F [0, 0] (db, [Received a, Received b]) =
      (fst (snd (vote env F db a)), [Replied (fst (vote env F db a)), Received b])"
  proof (cases "vote_compute env F db a")
    case (Pair res calls)
    show ?thesis
    proof (cases res)
      case (Inl resp)
      with Pair show ?thesis by (simp add: vote_def)
    next
      case (Inr rs)
      obtain nw nl where rs: "rs = (nw, nl)" by (cases rs)
      obtain resp db' calls' where p: "vote_persist env F db a nw nl = (resp, db', calls')"
        by (cases "vote_persist env F db a nw nl")
      with Pair Inr rs show ?thesis by (simp add: vote_def)
    qed
  qed
  have second: "run env F [1, 1] (db1, [v, Received b]) =
      (fst (snd (vote env F db1 b)), [v, Replied (fst (vote env F db1 b))])" for db1 v
  proof (cases "vote_compute env F db1 b")
    case (Pair res calls)
    show ?thesis
    proof (cases res)
      case (Inl resp)
      with Pair show ?thesis by (simp add: vote_def)
    next
      case (Inr rs)
      obtain nw nl where rs: "rs = (nw, nl)" by (cases rs)
      obtain resp db' calls' where p: "vote_persist env F db1 b nw nl = (resp, db', calls')"
        by (cases "vote_persist env F db1 b nw nl")
      with Pair Inr rs show ?thesis by (simp add: vote_def)
    qed
  qed
  have split: "run env F ([0, 0] @ [1, 1]) s = run env F [1, 1] (run env F [0, 0] s)" for s
    by (cases s) (simp add: Let_def split: prod.splits)
  show ?thesis
    using split [of "(db, [Received a, Received b])"] first second by simp
qed

lemma both_read_first:
  assumes "fst (vote_compute env F db a) = Inr (nwa, nla)"
    and "fst (vote_compute env F db b) = Inr (nwb, nlb)"
    and "\<not> (F Connect \<or> F Begin \<or> F UpdateWinner \<or> F UpdateLoser \<or> F Commit)"
  shows "run env F [0, 1] (db, [Received a, Received b]) =
           (db, [Computed a nwa nla, Computed b nwb nlb])"
    and "run env F [0, 1, 0, 1] (db, [Received a, Received b]) =
     (update_rating env nlb (loserId b) (update_rating env nwb (winnerId b)
        (update_rating env nla (loserId a) (update_rating env nwa (winnerId a) db))),
      [Replied (VoteResult nwa nla), Replied (VoteResult nwb nlb)])"
  using assms by (simp_all add: vote_persist_ok)

lemma the_other_order:
  "run env F [1, 1, 0, 0] (db, [Received a, Received b]) =
     (fst (snd (vote env F (fst (snd (vote env F db b))) a)),
      [Replied (fst (vote env F (fst (snd (vote env F db b))) a)), Replied (fst (vote env F db b))])"
proof -
  have first: "run env F [1, 1] (db, [Received a, Received b]) =
      (fst (snd (vote env F db b)), [Received a, Replied (fst (vote env F db b))])"
  proof (cases "vote_compute env F db b")
    case (Pair res calls)
    show ?thesis
    proof (cases res)
      case (Inl resp)
      with Pair show ?thesis by (simp add: vote_def)
    next
      case (Inr rs)
      obtain nw nl where rs: "rs = (nw, nl)" by (cases rs)
      obtain resp db' calls' where p: "vote_persist env F db b nw nl = (resp, db', calls')"
        by (cases "vote_persist env F db b nw nl")
      with Pair Inr rs show ?thesis by (simp add: vote_def)
    qed
  qed
  have second: "run env F [0, 0] (db1, [Received a, v]) =
      (fst (snd (vote env F db1 a)), [Replied (fst (vote env F db1 a)), v])" for db1 v
  proof (cases "vote_compute env F db1 a")
    case (Pair res calls)
    show ?thesis
    proof (cases res)
      case (Inl resp)
      with Pair show ?thesis by (simp add: vote_def)
    next
      case (Inr rs)
      obtain nw nl where rs: "rs = (nw, nl)" by (cases rs)
      obtain resp db' calls' where p: "vote_persist env F db1 a nw nl = (resp, db', calls')"
        by (cases "vote_persist env F db1 a nw nl")
      with Pair Inr rs show ?thesis by (simp add: vote_def)
    qed
  qed
  have split: "run env F ([1, 1] @ [0, 0]) s = run env F [0, 0] (run env F [1, 1] s)" for s
    by (cases s) (simp add: Let_def split: prod.splits)
  show ?thesis
    using split [of "(db, [Received a, Received b])"] first second by simp
qed

lemma played_in_flight:
  "map matches_played
     (update_rating env nlb lb (update_rating env nwb wb (update_rating env nla la (update_rating env nwa wa db))))
   = map (\<lambda>r. matches_played r
               + int (length (filter (\<lambda>i. id_selects env i (image_id r)) [wa, la, wb, lb]))) db"
  by (simp add: update_rating_def o_def cong: map_cong)

text \<open>
  Claim C9, as the code has it. Nothing excludes a second vote between the reads of a
  vote and its transaction. Two votes that run one after the other behave as the handler
  applied twice, the second reading what the first committed. When instead both votes
  read before either writes (and neither stops early nor meets a failing call), both
  compute their new ratings from the table as it was before either vote; the first
  transaction commits, then the second overwrites the rating of every row the two votes
  share with a value computed from the old rating. The counts of matches are incremented
  in SQL and still grow by one for each participation.
\<close>

theorem votes_in_flight:
  "run env F [0, 0, 1, 1] (db, [Received a, Received b]) =
     (fst (snd (vote env F (fst (snd (vote env F db a))) b)),
      [Replied (fst (vote env F db a)), Replied (fst (vote env F (fst (snd (vote env F db a))) b))])
   \<and> (fst (vote_compute env F db a) = Inr (nwa, nla) \<and> fst (vote_compute env F db b) = Inr (nwb, nlb)
        \<and> \<not> (F Connect \<or> F Begin \<or> F UpdateWinner \<or> F UpdateLoser \<or> F Commit)
      \<longrightarrow> run env F [0, 1] (db, [Received a, Received b]) =
            (db, [Computed a nwa nla, Computed b nwb nlb])
          \<and> run env F [0, 1, 0, 1] (db, [Received a, Received b]) =
            (update_rating env nlb (loserId b) (update_rating env nwb (winnerId b)
               (update_rating env nla (loserId a) (update_rating env nwa (winnerId a) db))),
             [Replied (VoteResult nwa nla), Replied (VoteResult nwb nlb)])
          \<and> map matches_played (fst (run env F [0, 1, 0, 1] (db, [Received a, Received b]))) =
              map (\<lambda>r. matches_played r
                        + int (length (filter (\<lambda>i. id_selects env i (image_id r))
                                         [winnerId a, loserId a, winnerId b, loserId b]))) db)"
proof (intro conjI impI)
  show "run env F [0, 0, 1, 1] (db, [Received a, Received b]) =
     (fst (snd (vote env F (fst (snd (vote env F db a))) b)),
      [Replied (fst (vote env F db a)), Replied (fst (vote env F (fst (snd (vote env F db a))) b))])"
    by (rule one_after_the_other)
next
  assume h: "fst (vote_compute env F db a) = Inr (nwa, nla) \<and> fst (vote_compute env F db b) = Inr (nwb, nlb)
        \<and> \<not> (F Connect \<or> F Begin \<or> F UpdateWinner \<or> F UpdateLoser \<or> F Commit)"
  then show "run env F [0, 1] (db, [Received a, Received b]) =
            (db, [Computed a nwa nla, Computed b nwb nlb])"
    using both_read_first(1) [of env F db a nwa nla b nwb nlb] by blast
  from h have r: "run env F [0, 1, 0, 1] (db, [Received a, Received b]) =
            (update_rating env nlb (loserId b) (update_rating env nwb (winnerId b)
               (update_rating env nla (loserId a) (update_rating env nwa (winnerId a) db))),
             [Replied (VoteResult nwa nla), Replied (VoteResult nwb nlb)])"
    using both_read_first(2) [of env F db a nwa nla b nwb nlb] by blast
  then show "run env F [0, 1, 0, 1] (db, [Received a, Received b]) =
            (update_rating env nlb (loserId b) (update_rating env nwb (winnerId b)
               (update_rating env nla (loserId a) (update_rating env nwa (winnerId a) db))),
             [Replied (VoteResult nwa nla), Replied (VoteResult nwb nlb)])" .
  show "map matches_played (fst (run env F [0, 1, 0, 1] (db, [Received a, Received b]))) =
              map (\<lambda>r. matches_played r
                        + int (length (filter (\<lambda>i. id_selects env i (image_id r))
                                         [winnerId a, loserId a, winnerId b, loserId b]))) db"
    by (simp only: r fst_conv played_in_flight)
qed

lemma compute_1_2:
  "vote_compute example_platform no_faults example_images vote_1_over_2
     = (Inr (Fin 1216, Fin 1184), [SelectWinner, SelectLoser])"
  by (simp add: vote_compute_def no_faults_def store_defs example_images_def parse_defs
      newRatings_equal vote_1_over_2_def)

lemma compute_1_3:
  "vote_compute example_platform no_faults example_images vote_1_over_3
     = (Inr (Fin 1216, Fin 1184), [SelectWinner, SelectLoser])"
  by (simp add: vote_compute_def no_faults_def store_defs example_images_def parse_defs
      newRatings_equal vote_1_over_3_def)

lemma after_vote_1_2:
  "vote example_platform no_faults example_images vote_1_over_2
    = (VoteResult (Fin 1216) (Fin 1184),
       [\<lparr>image_id = Number (Fin 1), name = ''doge'', image_url = ''https://ik.example/1'',
         rating = Number (Fin 1216), matches_played = 1\<rparr>,
        \<lparr>image_id = Number (Fin 2), name = ''pepe'', image_url = ''https://ik.example/2'',
         rating = Number (Fin 1184), matches_played = 1\<rparr>,
        \<lparr>image_id = Number (Fin 3), name = ''cat'', image_url = ''https://ik.example/3'',
         rating = Str ''1200'', matches_played = 0\<rparr>],
       [SelectWinner, SelectLoser, Connect, Begin, UpdateWinner, UpdateLoser, Commit])"
  using example_vote_1_2 by (simp add: vote_1_over_2_def)

lemma after_vote_1_3:
  "vote example_platform no_faults example_images vote_1_over_3
    = (VoteResult (Fin 1216) (Fin 1184),
       [\<lparr>image_id = Number (Fin 1), name = ''doge'', image_url = ''https://ik.example/1'',
         rating = Number (Fin 1216), matches_played = 1\<rparr>,
        \<lparr>image_id = Number (Fin 2), name = ''pepe'', image_url = ''https://ik.example/2'',
         rating = Str ''1200'', matches_played = 0\<rparr>,
        \<lparr>image_id = Number (Fin 3), name = ''cat'', image_url = ''https://ik.example/3'',
         rating = Number (Fin 1184), matches_played = 1\<rparr>],
       [SelectWinner, SelectLoser, Connect, Begin, UpdateWinner, UpdateLoser, Commit])"
  using compute_1_3
  by (simp add: vote_def vote_persist_ok no_faults_def store_defs example_images_def
      vote_1_over_3_def)

lemma second_vote_of_image_1:
  assumes acc: "accurate_pow env"
    and sel: "select_by_id env (Number (Fin 1)) db = [w]" "select_by_id env l db = [x]"
    and rat: "parseFloat (rating w) = Fin 1216" "parseFloat (rating x) = Fin 1200"
    and truthy: "\<not> falsy l"
    and row: "db = r # rs" "id_selects env (Number (Fin 1)) (image_id r)"
      "\<not> id_selects env l (image_id r)"
  shows "rating (fst (snd (vote env no_faults db \<lparr>winnerId = Number (Fin 1), loserId = l\<rparr>)) ! 0)
           \<noteq> Number (Fin 1216)"
proof -
  from second_vote_rating [OF acc] obtain nw nl where
    n: "newRatings env K_FACTOR (Fin 1216) (Fin 1200) = (Fin nw, Fin nl)" and nw: "1217 < nw"
    by blast
  have "vote env no_faults db \<lparr>winnerId = Number (Fin 1), loserId = l\<rparr> =
      (VoteResult (Fin nw) (Fin nl),
       update_rating env (Fin nl) l (update_rating env (Fin nw) (Number (Fin 1)) db),
       [SelectWinner, SelectLoser, Connect, Begin, UpdateWinner, UpdateLoser, Commit])"
    using vote_ok [of "\<lparr>winnerId = Number (Fin 1), loserId = l\<rparr>" no_faults env db w "[]" x "[]"
        "Fin nw" "Fin nl"] sel rat truthy n
    by (simp add: no_faults_def)
  then have "rating (fst (snd (vote env no_faults db \<lparr>winnerId = Number (Fin 1), loserId = l\<rparr>)) ! 0)
      = Number (Fin nw)"
    using row by (simp add: update_rating_def)
  with nw show ?thesis by simp
qed

text \<open>
  The claim C9 as stated fails. Two votes share image 1: image 1 over image 2 and image 1
  over image 3, all three rated 1200. When both read before either writes, both compute
  1216 for image 1 from the same stored 1200, and after both transactions image 1 is
  rated 1216 with two matches played: one of the two gains is lost. Run one after the
  other, in either order, the votes leave image 1 with a rating other than 1216.
\<close>

theorem lost_update:
  "run example_platform no_faults [0, 1] (example_images, [Received vote_1_over_2, Received vote_1_over_3])
     = (example_images,
        [Computed vote_1_over_2 (Fin 1216) (Fin 1184), Computed vote_1_over_3 (Fin 1216) (Fin 1184)])
   \<and> run example_platform no_faults [0, 1, 0, 1] (example_images, [Received vote_1_over_2, Received vote_1_over_3])
     = ([\<lparr>image_id = Number (Fin 1), name = ''doge'', image_url = ''https://ik.example/1'',
          rating = Number (Fin 1216), matches_played = 2\<rparr>,
         \<lparr>image_id = Number (Fin 2), name = ''pepe'', image_url = ''https://ik.example/2'',
          rating = Number (Fin 1184), matches_played = 1\<rparr>,
         \<lparr>image_id = Number (Fin 3), name = ''cat'', image_url = ''https://ik.example/3'',
          rating = Number (Fin 1184), matches_played = 1\<rparr>],
        [Replied (VoteResult (Fin 1216) (Fin 1184)), Replied (VoteResult (Fin 1216) (Fin 1184))])
   \<and> rating (fst (run example_platform no_faults [0, 0, 1, 1]
         (example_images, [Received vote_1_over_2, Received vote_1_over_3])) ! 0)
       \<noteq> Number (Fin 1216)
   \<and> rating (fst (run example_platform no_faults [1, 1, 0, 0]
         (example_images, [Received vote_1_over_2, Received vote_1_over_3])) ! 0)
       \<noteq> Number (Fin 1216)"
proof (intro conjI)
  have nf: "\<not> (no_faults Connect \<or> no_faults Begin \<or> no_faults UpdateWinner
      \<or> no_faults UpdateLoser \<or> no_faults Commit)"
    by (simp add: no_faults_def)
  have c: "fst (vote_compute example_platform no_faults example_images vote_1_over_2) = Inr (Fin 1216, Fin 1184)"
    "fst (vote_compute example_platform no_faults example_images vote_1_over_3) = Inr (Fin 1216, Fin 1184)"
    by (simp_all add: compute_1_2 compute_1_3)
  show "run example_platform no_faults [0, 1] (example_images, [Received vote_1_over_2, Received vote_1_over_3])
     = (example_images,
        [Computed vote_1_over_2 (Fin 1216) (Fin 1184), Computed vote_1_over_3 (Fin 1216) (Fin 1184)])"
    using both_read_first(1) [OF c nf] .
  show "run example_platform no_faults [0, 1, 0, 1] (example_images, [Received vote_1_over_2, Received vote_1_over_3])
     = ([\<lparr>image_id = Number (Fin 1), name = ''doge'', image_url = ''https://ik.example/1'',
          rating = Number (Fin 1216), matches_played = 2\<rparr>,
         \<lparr>image_id = Number (Fin 2), name = ''pepe'', image_url = ''https://ik.example/2'',
          rating = Number (Fin 1184), matches_played = 1\<rparr>,
         \<lparr>image_id = Number (Fin 3), name = ''cat'', image_url = ''https://ik.example/3'',
          rating = Number (Fin 1184), matches_played = 1\<rparr>],
        [Replied (VoteResult (Fin 1216) (Fin 1184)), Replied (VoteResult (Fin 1216) (Fin 1184))])"
    unfolding both_read_first(2) [OF c nf]
    by (simp add: store_defs example_images_def vote_1_over_2_def vote_1_over_3_def)
  show "rating (fst (run example_platform no_faults [0, 0, 1, 1]
         (example_images, [Received vote_1_over_2, Received vote_1_over_3])) ! 0)
       \<noteq> Number (Fin 1216)"
    unfolding one_after_the_other after_vote_1_2 fst_conv snd_conv vote_1_over_3_def
    by (rule second_vote_of_image_1 [OF accurate_example, where r = "\<lparr>image_id = Number (Fin 1), name = ''doge'',
          image_url = ''https://ik.example/1'', rating = Number (Fin 1216), matches_played = 1\<rparr>"
        and w = "\<lparr>image_id = Number (Fin 1), name = ''doge'',
          image_url = ''https://ik.example/1'', rating = Number (Fin 1216), matches_played = 1\<rparr>"
        and x = "\<lparr>image_id = Number (Fin 3), name = ''cat'',
          image_url = ''https://ik.example/3'', rating = Str ''1200'', matches_played = 0\<rparr>"])
      (simp_all add: parse_defs store_defs)
  show "rating (fst (run example_platform no_faults [1, 1, 0, 0]
         (example_images, [Received vote_1_over_2, Received vote_1_over_3])) ! 0)
       \<noteq> Number (Fin 1216)"
    unfolding the_other_order after_vote_1_3 fst_conv snd_conv vote_1_over_2_def
    by (rule second_vote_of_image_1 [OF accurate_example, where r = "\<lparr>image_id = Number (Fin 1), name = ''doge'',
          image_url = ''https://ik.example/1'', rating = Number (Fin 1216), matches_played = 1\<rparr>"
        and w = "\<lparr>image_id = Number (Fin 1), name = ''doge'',
          image_url = ''https://ik.example/1'', rating = Number (Fin 1216), matches_played = 1\<rparr>"
        and x = "\<lparr>image_id = Number (Fin 2), name = ''pepe'',
          image_url = ''https://ik.example/2'', rating = Str ''1200'', matches_played = 0\<rparr>"])
      (simp_all add: parse_defs store_defs)
qed

text \<open>An instance: the two votes on image 1, both reading before either writes.\<close>

theorem votes_in_flight_witness:
  "map matches_played (fst (run example_platform no_faults [0, 1, 0, 1]
       (example_images, [Received vote_1_over_2, Received vote_1_over_3]))) = [2, 1, 1]
   \<and> map rating (fst (run example_platform no_faults [0, 1, 0, 1]
       (example_images, [Received vote_1_over_2, Received vote_1_over_3])))
       = [Number (Fin 1216), Number (Fin 1184), Number (Fin 1184)]"
proof -
  have nf: "\<not> (no_faults Connect \<or> no_faults Begin \<or> no_faults UpdateWinner
      \<or> no_faults UpdateLoser \<or> no_faults Commit)"
    by (simp add: no_faults_def)
  have c: "fst (vote_compute example_platform no_faults example_images vote_1_over_2) = Inr (Fin 1216, Fin 1184)"
    "fst (vote_compute example_platform no_faults example_images vote_1_over_3) = Inr (Fin 1216, Fin 1184)"
    by (simp_all add: compute_1_2 compute_1_3)
  from votes_in_flight [of example_platform no_faults example_images vote_1_over_2 vote_1_over_3
      "Fin 1216" "Fin 1184" "Fin 1216" "Fin 1184"] c nf
  have "run example_platform no_faults [0, 1, 0, 1] (example_images, [Received vote_1_over_2, Received vote_1_over_3]) =
            (update_rating example_platform (Fin 1184) (loserId vote_1_over_3) (update_rating example_platform (Fin 1216) (winnerId vote_1_over_3)
               (update_rating example_platform (Fin 1184) (loserId vote_1_over_2)
                  (update_rating example_platform (Fin 1216) (winnerId vote_1_over_2) example_images))),
             [Replied (VoteResult (Fin 1216) (Fin 1184)), Replied (VoteResult (Fin 1216) (Fin 1184))])"
    by blast
  then show ?thesis
    by (simp add: store_defs example_images_def vote_1_over_2_def vote_1_over_3_def)
qed

end
